theory Spec2Isabelle
  imports Main "HOL-Library.Word"
begin

section \<open>The update check of the console marketplace\<close>

text \<open>
  A shallow embedding of \<^verbatim>\<open>src/web/src/hooks/useVersionCheck.tsx\<close>: the comparison
  \<^verbatim>\<open>isNewerVersion\<close> of two version strings, and the hook \<^verbatim>\<open>useVersionCheck\<close>,
  which fetches the latest release and reports whether it is newer than the running
  version.
\<close>

subsection \<open>Strings and numbers of the language\<close>

text \<open>
  A string of the source language is a sequence of 16-bit code units. \<open>js\<close> writes
  a literal of ASCII characters as such a sequence.
\<close>

type_synonym code_unit = "16 word"
type_synonym jsstring = "code_unit list"

definition js :: "string \<Rightarrow> jsstring" where
  "js s = map of_char s"

text \<open>
  A Number, as far as \<^verbatim>\<open>parseInt\<close> can produce one: not-a-number, the two infinities,
  negative zero, and the finite values, all of them integers (\<open>Finite 0\<close> is \<open>+0\<close>).
\<close>

datatype jsnum = NaN | NegInf | Finite int | NegZero | PosInf

text \<open>
  The Number nearest to an integer: every integer below \<open>2 ^ 53\<close> is a Number; a larger
  one is rounded to 53 significant bits, a tie going to the even significand, and
  from \<open>2 ^ 1024\<close> on the result is infinite. \<open>bit_length n\<close> is the number of binary
  digits of \<open>n\<close>.
\<close>

fun bit_length :: "nat \<Rightarrow> nat" where
  "bit_length n = (if n = 0 then 0 else Suc (bit_length (n div 2)))"

definition round_magnitude :: "nat \<Rightarrow> nat option" where
  "round_magnitude n =
     (if n < 2 ^ 53 then Some n
      else
        let e = bit_length n - 53;
            q = n div 2 ^ e;
            r = n mod 2 ^ e;
            q' = (if 2 ^ e < 2 * r \<or> (2 * r = 2 ^ e \<and> odd q) then q + 1 else q)
        in if 2 ^ 1024 \<le> q' * 2 ^ e then None else Some (q' * 2 ^ e))"

definition to_number :: "int \<Rightarrow> jsnum" where
  "to_number i =
     (case round_magnitude (nat \<bar>i\<bar>) of
        None \<Rightarrow> if i < 0 then NegInf else PosInf
      | Some m \<Rightarrow> Finite (if i < 0 then - int m else int m))"

text \<open>
  \<^verbatim>\<open>ToBoolean\<close> on a Number: zero and not-a-number are false. \<^verbatim>\<open>x || 0\<close> is \<open>x\<close> when
  \<open>x\<close> is true and \<open>+0\<close> otherwise.
\<close>

fun to_boolean :: "jsnum \<Rightarrow> bool" where
  "to_boolean NaN = False"
| "to_boolean NegZero = False"
| "to_boolean (Finite i) = (i \<noteq> 0)"
| "to_boolean NegInf = True"
| "to_boolean PosInf = True"

definition or_zero :: "jsnum \<Rightarrow> jsnum" where
  "or_zero x = (if to_boolean x then x else Finite 0)"

text \<open>
  \<^verbatim>\<open>parseInt(s, 10)\<close>: leading white space is skipped, then an optional sign, then the
  longest run of decimal digits is read; with no digit the result is not-a-number.
  What follows the digits is ignored. (For a run of more than 20 significant digits
  the language lets an implementation replace the digits after the 20th by zeros
  before rounding; the model rounds the exact value.)
\<close>

definition is_white_space :: "code_unit \<Rightarrow> bool" where
  "is_white_space c \<longleftrightarrow>
     c \<in> {0x09, 0x0A, 0x0B, 0x0C, 0x0D, 0x20, 0xA0, 0x1680, 0x2028, 0x2029,
          0x202F, 0x205F, 0x3000, 0xFEFF} \<or> (0x2000 \<le> c \<and> c \<le> 0x200A)"

definition is_digit :: "code_unit \<Rightarrow> bool" where
  "is_digit c \<longleftrightarrow> 0x30 \<le> c \<and> c \<le> 0x39"

definition digit_value :: "code_unit \<Rightarrow> nat" where
  "digit_value c = unat c - 48"

definition math_int :: "jsstring \<Rightarrow> nat" where
  "math_int Z = foldl (\<lambda>acc c. 10 * acc + digit_value c) 0 Z"

definition parseInt10 :: "jsstring \<Rightarrow> jsnum" where
  "parseInt10 inputString =
     (let S = dropWhile is_white_space inputString;
          negative = (case S of [] \<Rightarrow> False | c # _ \<Rightarrow> c = 0x2D);
          S' = (case S of [] \<Rightarrow> [] | c # rest \<Rightarrow> if c = 0x2B \<or> c = 0x2D then rest else S);
          Z = takeWhile is_digit S'
      in if Z = [] then NaN
         else if math_int Z = 0 then (if negative then NegZero else Finite 0)
         else to_number (if negative then - int (math_int Z) else int (math_int Z)))"

subsection \<open>isNewerVersion\<close>

text \<open>
  \<^verbatim>\<open>v.replace(/^v/, '')\<close> removes one lower-case \<open>v\<close> at the start of the string.
\<close>

fun replace_v :: "jsstring \<Rightarrow> jsstring" where
  "replace_v [] = []"
| "replace_v (c # cs) = (if c = 0x76 then cs else c # cs)"

text \<open>
  \<^verbatim>\<open>split('.')\<close>: the pieces between the dots, in order. \<open>split_from piece s\<close> has read
  \<open>piece\<close> (in reverse) since the last dot. The result is never empty: the empty
  string splits into one empty piece.
\<close>

fun split_from :: "jsstring \<Rightarrow> jsstring \<Rightarrow> jsstring list" where
  "split_from piece [] = [rev piece]"
| "split_from piece (c # cs) =
     (if c = 0x2E then rev piece # split_from [] cs else split_from (c # piece) cs)"

definition split_dot :: "jsstring \<Rightarrow> jsstring list" where
  "split_dot s = split_from [] s"

definition parse :: "jsstring \<Rightarrow> jsnum list" where
  "parse v = map (\<lambda>n. or_zero (parseInt10 n)) (split_dot (replace_v v))"

text \<open>
  The pattern \<^verbatim>\<open>[aMajor, aMinor, aPatch]\<close> binds the first three elements of the
  array; where the array is shorter, the variable is \<^verbatim>\<open>undefined\<close>.
\<close>

datatype jsval = Undefined | Number jsnum

definition element :: "jsnum list \<Rightarrow> nat \<Rightarrow> jsval" where
  "element xs i = (if i < length xs then Number (xs ! i) else Undefined)"

text \<open>
  \<^verbatim>\<open>x < y\<close> on Numbers is undefined (\<open>None\<close>) when one of them is not-a-number.
  \<^verbatim>\<open>a > b\<close> converts both operands to Numbers (\<^verbatim>\<open>undefined\<close> becomes not-a-number),
  asks whether \<open>b < a\<close>, and is false when that is undefined. \<^verbatim>\<open>a !== b\<close> is true
  for operands of different types; two Numbers are equal when they are the same
  value and not not-a-number, the two zeros being equal.
\<close>

fun real_value :: "jsnum \<Rightarrow> int" where
  "real_value (Finite i) = i"
| "real_value x = 0"

definition number_less_than :: "jsnum \<Rightarrow> jsnum \<Rightarrow> bool option" where
  "number_less_than x y =
     (if x = NaN then None
      else if y = NaN then None
      else if x = y then Some False
      else if x = Finite 0 \<and> y = NegZero then Some False
      else if x = NegZero \<and> y = Finite 0 then Some False
      else if x = PosInf then Some False
      else if y = PosInf then Some True
      else if y = NegInf then Some False
      else if x = NegInf then Some True
      else Some (real_value x < real_value y))"

fun to_numeric :: "jsval \<Rightarrow> jsnum" where
  "to_numeric Undefined = NaN"
| "to_numeric (Number x) = x"

definition greater_than :: "jsval \<Rightarrow> jsval \<Rightarrow> bool" where
  "greater_than a b =
     (case number_less_than (to_numeric b) (to_numeric a) of None \<Rightarrow> False | Some r \<Rightarrow> r)"

definition number_equal :: "jsnum \<Rightarrow> jsnum \<Rightarrow> bool" where
  "number_equal x y =
     (if x = NaN then False
      else if y = NaN then False
      else if x = y then True
      else if x = Finite 0 \<and> y = NegZero then True
      else if x = NegZero \<and> y = Finite 0 then True
      else False)"

fun strict_not_equal :: "jsval \<Rightarrow> jsval \<Rightarrow> bool" where
  "strict_not_equal Undefined Undefined = False"
| "strict_not_equal (Number x) (Number y) = (\<not> number_equal x y)"
| "strict_not_equal a b = True"

definition isNewerVersion :: "jsstring \<Rightarrow> jsstring \<Rightarrow> bool" where
  "isNewerVersion a b =
     (let pa = parse a; aMajor = element pa 0; aMinor = element pa 1; aPatch = element pa 2;
          pb = parse b; bMajor = element pb 0; bMinor = element pb 1; bPatch = element pb 2
      in if strict_not_equal aMajor bMajor then greater_than aMajor bMajor
         else if strict_not_equal aMinor bMinor then greater_than aMinor bMinor
         else greater_than aPatch bPatch)"

text \<open>
  The version strings of the specification: three numeric components, each a
  non-empty run of decimal digits, separated by dots, after an optional \<open>v\<close>; and
  the order of the triples of their values, the first difference deciding.
\<close>

definition numeric :: "jsstring \<Rightarrow> bool" where
  "numeric d \<longleftrightarrow> d \<noteq> [] \<and> list_all is_digit d"

definition version_string :: "bool \<Rightarrow> jsstring \<Rightarrow> jsstring \<Rightarrow> jsstring \<Rightarrow> jsstring" where
  "version_string v major minor patch =
     (if v then [0x76] else []) @ major @ [0x2E] @ minor @ [0x2E] @ patch"

fun triple_greater :: "nat \<times> nat \<times> nat \<Rightarrow> nat \<times> nat \<times> nat \<Rightarrow> bool" where
  "triple_greater (a1, a2, a3) (b1, b2, b3) \<longleftrightarrow>
     b1 < a1 \<or> (a1 = b1 \<and> (b2 < a2 \<or> (a2 = b2 \<and> b3 < a3)))"

subsection \<open>What the release feed returns\<close>

text \<open>
  The value \<^verbatim>\<open>response.json()\<close> resolves to: any value of the JSON grammar. The hook
  never looks into a number, so the numbers are left open (\<open>'n\<close>).
\<close>

datatype 'n json =
    JNull
  | JBool bool
  | JNumber 'n
  | JString jsstring
  | JArray "'n json list"
  | JObject "(jsstring \<times> 'n json) list"

text \<open>
  A thrown error has a name and a message. The wording of the errors the engine
  itself raises is the engine's own; nothing below depends on it.
\<close>

datatype js_error = JsError (err_name: jsstring) (err_message: jsstring)

definition null_property_error :: js_error where
  "null_property_error = JsError (js ''TypeError'') (js ''Cannot read properties of null'')"

definition not_a_function_error :: js_error where
  "not_a_function_error = JsError (js ''TypeError'') (js ''v.replace is not a function'')"

definition abort_error :: js_error where
  "abort_error = JsError (js ''AbortError'') (js ''The operation was aborted.'')"

text \<open>
  \<^verbatim>\<open>data.tag_name\<close>: reading a property of \<^verbatim>\<open>null\<close> throws; an object built from
  JSON text has the members of the text, a later member replacing an earlier one of
  the same name; any other value has no such property (\<open>None\<close> is \<^verbatim>\<open>undefined\<close>).
\<close>

fun get_tag_name :: "'n json \<Rightarrow> js_error + 'n json option" where
  "get_tag_name JNull = Inl null_property_error"
| "get_tag_name (JObject members) = Inr (map_of (rev members) (js ''tag_name''))"
| "get_tag_name (JBool b) = Inr None"
| "get_tag_name (JNumber n) = Inr None"
| "get_tag_name (JString s) = Inr None"
| "get_tag_name (JArray xs) = Inr None"

text \<open>Whether a JSON value is an object with a member of the given name.\<close>

fun has_member :: "jsstring \<Rightarrow> 'n json \<Rightarrow> bool" where
  "has_member name (JObject members) \<longleftrightarrow> name \<in> fst ` set members"
| "has_member name JNull \<longleftrightarrow> False"
| "has_member name (JBool b) \<longleftrightarrow> False"
| "has_member name (JNumber n) \<longleftrightarrow> False"
| "has_member name (JString s) \<longleftrightarrow> False"
| "has_member name (JArray xs) \<longleftrightarrow> False"

text \<open>\<^verbatim>\<open>x ?? null\<close> is \<^verbatim>\<open>null\<close> when \<open>x\<close> is \<^verbatim>\<open>undefined\<close> or \<^verbatim>\<open>null\<close>.\<close>

fun nullish_null :: "'n json option \<Rightarrow> 'n json" where
  "nullish_null None = JNull"
| "nullish_null (Some v) = v"

text \<open>
  The call \<^verbatim>\<open>isNewerVersion(latestVersion, currentVersion)\<close> of the hook, whose first
  argument is whatever the feed sent: \<^verbatim>\<open>v.replace\<close> is a function only when \<open>v\<close> is
  a string.
\<close>

fun call_isNewerVersion :: "'n json \<Rightarrow> jsstring \<Rightarrow> js_error + bool" where
  "call_isNewerVersion (JString a) b = Inr (isNewerVersion a b)"
| "call_isNewerVersion JNull b = Inl null_property_error"
| "call_isNewerVersion (JBool x) b = Inl not_a_function_error"
| "call_isNewerVersion (JNumber x) b = Inl not_a_function_error"
| "call_isNewerVersion (JArray x) b = Inl not_a_function_error"
| "call_isNewerVersion (JObject x) b = Inl not_a_function_error"

subsection \<open>useVersionCheck\<close>

text \<open>
  The state of the hook. The interface declares \<open>latestVersion\<close> a string or
  \<^verbatim>\<open>null\<close>; the hook stores the \<^verbatim>\<open>tag_name\<close> of the feed as it comes, so the field is
  a JSON value here (\<open>JNull\<close> is \<^verbatim>\<open>null\<close>). For \<open>currentVersion\<close> and \<open>error\<close>, \<open>None\<close>
  is \<^verbatim>\<open>null\<close>.
\<close>

record 'n VersionInfo =
  latestVersion :: "'n json"
  currentVersion :: "jsstring option"
  updateAvailable :: bool
  loading :: bool
  error :: "jsstring option"

text \<open>The argument of \<^verbatim>\<open>useState\<close>: the state of the first render.\<close>

definition initial_state :: "jsstring option \<Rightarrow> 'n VersionInfo" where
  "initial_state cv =
     \<lparr>latestVersion = JNull, currentVersion = cv, updateAvailable = False,
      loading = True, error = None\<rparr>"

text \<open>
  After \<^verbatim>\<open>fetch\<close> has resolved: a response that is not \<^verbatim>\<open>ok\<close> throws (\<open>Some\<close> the
  error), otherwise the body is awaited.
\<close>

definition after_response :: "bool \<Rightarrow> jsstring \<Rightarrow> js_error option" where
  "after_response ok statusText =
     (if \<not> ok then Some (JsError (js ''Error'') (js ''Version check failed: '' @ statusText))
      else None)"

text \<open>
  After \<^verbatim>\<open>response.json()\<close> has resolved to \<open>data\<close>, in the closure of an effect that
  ran with \<open>cv\<close> as \<^verbatim>\<open>currentVersion\<close>: the state to set, or the error thrown on the
  way.
\<close>

definition after_body :: "jsstring option \<Rightarrow> 'n json \<Rightarrow> js_error + 'n VersionInfo" where
  "after_body cv data =
     (case get_tag_name data of
        Inl e \<Rightarrow> Inl e
      | Inr tag \<Rightarrow>
          let latest = nullish_null tag;
              newer = (if latest \<noteq> JNull
                       then (case cv of None \<Rightarrow> Inr False
                             | Some current \<Rightarrow> call_isNewerVersion latest current)
                       else Inr False)
          in (case newer of
                Inl e \<Rightarrow> Inl e
              | Inr update \<Rightarrow>
                  Inr \<lparr>latestVersion = latest, currentVersion = cv, updateAvailable = update,
                       loading = False, error = None\<rparr>))"

text \<open>
  One run of the effect is one call of \<^verbatim>\<open>checkVersion\<close>: it holds the
  \<^verbatim>\<open>currentVersion\<close> of the render it belongs to, the flag of its own
  \<^verbatim>\<open>AbortController\<close>, and the \<^verbatim>\<open>await\<close> it is suspended at.
\<close>

datatype stage = AwaitingResponse | AwaitingBody | Settled

record request =
  captured :: "jsstring option"
  aborted :: bool
  stage :: stage

text \<open>
  A mounted hook: the state the caller sees, the requests issued so far, one per
  run of the effect, the latest last, and the states \<^verbatim>\<open>setState\<close> has been called
  with so far, the latest first.
\<close>

record 'n hook =
  state :: "'n VersionInfo"
  requests :: "request list"
  updates :: "'n VersionInfo list"

definition setState :: "('n VersionInfo \<Rightarrow> 'n VersionInfo) \<Rightarrow> 'n hook \<Rightarrow> 'n hook" where
  "setState f h = h\<lparr>state := f (state h), updates := f (state h) # updates h\<rparr>"

text \<open>
  The \<^verbatim>\<open>catch\<close> block: on an error named \<^verbatim>\<open>AbortError\<close> it returns; on any other it
  clears \<open>loading\<close> and stores the message, keeping the other fields of the previous
  state.
\<close>

definition catch_block :: "js_error \<Rightarrow> 'n hook \<Rightarrow> 'n hook" where
  "catch_block err h =
     (if err_name err = js ''AbortError'' then h
      else setState (\<lambda>prev. prev\<lparr>loading := False, error := Some (err_message err)\<rparr>) h)"

text \<open>
  The effect issues one request. Its cleanup aborts the controller of the latest
  run. Mounting renders the initial state and runs the effect; a render with another
  \<^verbatim>\<open>currentVersion\<close> runs the cleanup and the effect again, and leaves the state as
  it is, since the argument of \<^verbatim>\<open>useState\<close> counts on the first render only.
\<close>

definition effect :: "jsstring option \<Rightarrow> 'n hook \<Rightarrow> 'n hook" where
  "effect cv h =
     h\<lparr>requests := requests h @ [\<lparr>captured = cv, aborted = False, stage = AwaitingResponse\<rparr>]\<rparr>"

definition cleanup :: "'n hook \<Rightarrow> 'n hook" where
  "cleanup h =
     (let rs = requests h
      in if rs = [] then h
         else h\<lparr>requests := rs[length rs - 1 := (last rs)\<lparr>aborted := True\<rparr>]\<rparr>)"

definition mount :: "jsstring option \<Rightarrow> 'n hook" where
  "mount cv = effect cv \<lparr>state = initial_state cv, requests = [], updates = []\<rparr>"

text \<open>
  What can happen to a mounted hook. The caller renders it with another
  \<^verbatim>\<open>currentVersion\<close> or unmounts it. The network settles the promise a request is
  suspended at: \<^verbatim>\<open>fetch\<close> resolves with a response (its \<^verbatim>\<open>ok\<close> and \<^verbatim>\<open>statusText\<close>) or
  rejects; \<^verbatim>\<open>response.json()\<close> resolves with a value or rejects. Once the controller
  of a request is aborted, its pending promise can only reject, with an
  \<^verbatim>\<open>AbortError\<close>; a request that is not aborted never sees an error of that name.
\<close>

datatype 'n event =
    Activate "jsstring option"
  | Deactivate
  | Response nat bool jsstring
  | TransportFailure nat js_error
  | Body nat "'n json"
  | BodyFailure nat js_error
  | Aborted nat

definition suspended :: "'n hook \<Rightarrow> nat \<Rightarrow> stage \<Rightarrow> bool" where
  "suspended h i st \<longleftrightarrow>
     i < length (requests h) \<and> \<not> aborted (requests h ! i) \<and> stage (requests h ! i) = st"

definition resume :: "nat \<Rightarrow> stage \<Rightarrow> 'n hook \<Rightarrow> 'n hook" where
  "resume i st h = h\<lparr>requests := (requests h)[i := (requests h ! i)\<lparr>stage := st\<rparr>]\<rparr>"

fun step :: "'n hook \<Rightarrow> 'n event \<Rightarrow> 'n hook option" where
  "step h (Activate cv) = Some (effect cv (cleanup h))"
| "step h Deactivate = Some (cleanup h)"
| "step h (Response i ok statusText) =
     (if suspended h i AwaitingResponse
      then (case after_response ok statusText of
              Some e \<Rightarrow> Some (catch_block e (resume i Settled h))
            | None \<Rightarrow> Some (resume i AwaitingBody h))
      else None)"
| "step h (TransportFailure i e) =
     (if suspended h i AwaitingResponse \<and> err_name e \<noteq> js ''AbortError''
      then Some (catch_block e (resume i Settled h))
      else None)"
| "step h (Body i data) =
     (if suspended h i AwaitingBody
      then (case after_body (captured (requests h ! i)) data of
              Inl e \<Rightarrow> Some (catch_block e (resume i Settled h))
            | Inr s \<Rightarrow> Some (setState (\<lambda>prev. s) (resume i Settled h)))
      else None)"
| "step h (BodyFailure i e) =
     (if suspended h i AwaitingBody \<and> err_name e \<noteq> js ''AbortError''
      then Some (catch_block e (resume i Settled h))
      else None)"
| "step h (Aborted i) =
     (if i < length (requests h) \<and> aborted (requests h ! i) \<and> stage (requests h ! i) \<noteq> Settled
      then Some (catch_block abort_error (resume i Settled h))
      else None)"

text \<open>A run of events, in the order they arrive; \<open>None\<close> when one of them cannot happen.\<close>

fun run :: "'n hook \<Rightarrow> 'n event list \<Rightarrow> 'n hook option" where
  "run h [] = Some h"
| "run h (e # es) = (case step h e of None \<Rightarrow> None | Some h' \<Rightarrow> run h' es)"

text \<open>
  The events by which the caller starts or stops a check, and what the invariant
  of the state says: \<open>updateAvailable\<close> is true exactly when both versions are there
  and the comparison is true.
\<close>

fun activation :: "'n event \<Rightarrow> bool" where
  "activation (Activate cv) = True"
| "activation e = False"

fun by_caller :: "'n event \<Rightarrow> bool" where
  "by_caller (Activate cv) = True"
| "by_caller Deactivate = True"
| "by_caller e = False"

definition update_expected :: "'n VersionInfo \<Rightarrow> bool" where
  "update_expected s =
     (case currentVersion s of
        None \<Rightarrow> False
      | Some current \<Rightarrow>
          latestVersion s \<noteq> JNull \<and> call_isNewerVersion (latestVersion s) current = Inr True)"

text \<open>Every request but the latest has been aborted.\<close>

definition superseded_aborted :: "'n hook \<Rightarrow> bool" where
  "superseded_aborted h \<longleftrightarrow> list_all aborted (butlast (requests h))"

text \<open>
  While every run of the effect had \<^verbatim>\<open>null\<close> as \<^verbatim>\<open>currentVersion\<close>, no update is
  reported.
\<close>

definition never_current :: "'n hook \<Rightarrow> bool" where
  "never_current h \<longleftrightarrow>
     list_all (\<lambda>r. captured r = None) (requests h) \<and> \<not> updateAvailable (state h)"

text \<open>
  The events that settle request \<open>k\<close> while it is not aborted: a response that is not
  \<^verbatim>\<open>ok\<close>, a rejection, or the body. \<open>outcome cv s0 e\<close> is the state after such an event
  \<open>e\<close>, for a request issued with \<open>cv\<close>, when the state before was \<open>s0\<close>.
\<close>

fun settling :: "nat \<Rightarrow> 'n event \<Rightarrow> bool" where
  "settling k (Response i ok statusText) \<longleftrightarrow> i = k \<and> \<not> ok"
| "settling k (TransportFailure i e) \<longleftrightarrow> i = k"
| "settling k (Body i data) \<longleftrightarrow> i = k"
| "settling k (BodyFailure i e) \<longleftrightarrow> i = k"
| "settling k (Aborted i) \<longleftrightarrow> False"
| "settling k (Activate cv) \<longleftrightarrow> False"
| "settling k Deactivate \<longleftrightarrow> False"

fun outcome :: "jsstring option \<Rightarrow> 'n VersionInfo \<Rightarrow> 'n event \<Rightarrow> 'n VersionInfo" where
  "outcome cv s0 (Body i data) =
     (case after_body cv data of
        Inr s \<Rightarrow> s
      | Inl e \<Rightarrow> s0\<lparr>loading := False, error := Some (err_message e)\<rparr>)"
| "outcome cv s0 (Response i ok statusText) =
     s0\<lparr>loading := False, error := Some (js ''Version check failed: '' @ statusText)\<rparr>"
| "outcome cv s0 (TransportFailure i e) = s0\<lparr>loading := False, error := Some (err_message e)\<rparr>"
| "outcome cv s0 (BodyFailure i e) = s0\<lparr>loading := False, error := Some (err_message e)\<rparr>"
| "outcome cv s0 (Aborted i) = s0"
| "outcome cv s0 (Activate cv') = s0"
| "outcome cv s0 Deactivate = s0"

text \<open>
  The hook after the activation that issued request \<open>k\<close> with \<open>cv\<close>, when the state
  was \<open>s0\<close> and \<open>u0\<close> the states set until then, and the events \<open>es\<close> have arrived
  since: request \<open>k\<close> is the latest and the only one not aborted; until it settles
  no event has settled it and nothing has been set; when it has settled, exactly one
  event has settled it and exactly one state has been set, the outcome of that event.
\<close>

definition latest_outcome ::
  "nat \<Rightarrow> jsstring option \<Rightarrow> 'n VersionInfo \<Rightarrow> 'n VersionInfo list \<Rightarrow> 'n event list \<Rightarrow> 'n hook \<Rightarrow> bool"
  where
  "latest_outcome k cv s0 u0 es g \<longleftrightarrow>
     length (requests g) = Suc k \<and> list_all aborted (butlast (requests g))
     \<and> \<not> aborted (requests g ! k) \<and> captured (requests g ! k) = cv
     \<and> (if stage (requests g ! k) = Settled
        then (\<exists>e. filter (settling k) es = [e] \<and> state g = outcome cv s0 e)
          \<and> updates g = state g # u0
        else filter (settling k) es = [] \<and> state g = s0 \<and> updates g = u0)"

section \<open>Properties\<close>

subsection \<open>Evaluating the comparison\<close>

lemmas version_eval =
  isNewerVersion_def parse_def split_dot_def js_def parseInt10_def is_white_space_def
  is_digit_def math_int_def digit_value_def or_zero_def to_number_def round_magnitude_def
  greater_than_def number_less_than_def number_equal_def element_def

subsection \<open>The comparison operators\<close>

lemma number_equal_sym: "number_equal x y = number_equal y x"
  by (auto simp: number_equal_def)

lemma strict_not_equal_sym: "strict_not_equal a b = strict_not_equal b a"
  by (cases a; cases b) (simp_all add: number_equal_sym)

lemma number_less_than_asym:
  "number_less_than x y = Some True \<Longrightarrow> number_less_than y x \<noteq> Some True"
  by (cases x; cases y) (auto simp: number_less_than_def split: if_splits)

lemma greater_than_asym: "greater_than a b \<Longrightarrow> \<not> greater_than b a"
  using number_less_than_asym [of "to_numeric b" "to_numeric a"]
  by (auto simp: greater_than_def split: option.splits)

subsection \<open>The components of a version string\<close>

lemma is_digit_plain:
  assumes "is_digit c"
  shows "c \<noteq> 0x2E" "c \<noteq> 0x76" "c \<noteq> 0x2B" "c \<noteq> 0x2D" "\<not> is_white_space c"
proof -
  from assms have "48 \<le> unat c" "unat c \<le> 57"
    by (simp_all add: is_digit_def word_le_nat_alt)
  then show "c \<noteq> 0x2E" "c \<noteq> 0x76" "c \<noteq> 0x2B" "c \<noteq> 0x2D" "\<not> is_white_space c"
    by (auto simp: is_white_space_def word_le_nat_alt)
qed

lemma split_from_dot:
  "0x2E \<notin> set ds \<Longrightarrow> split_from piece (ds @ 0x2E # rest) = (rev piece @ ds) # split_from [] rest"
  by (induction ds arbitrary: piece) auto

lemma split_from_last:
  "0x2E \<notin> set ds \<Longrightarrow> split_from piece ds = [rev piece @ ds]"
  by (induction ds arbitrary: piece) auto

lemma numeric_no_dot: "numeric d \<Longrightarrow> 0x2E \<notin> set d"
  using is_digit_plain(1) by (auto simp: numeric_def list_all_iff)

lemma round_magnitude_exact: "n < 2 ^ 53 \<Longrightarrow> round_magnitude n = Some n"
  by (simp add: round_magnitude_def)

lemma component_numeric:
  assumes "numeric d" and "math_int d < 2 ^ 53"
  shows "or_zero (parseInt10 d) = Finite (int (math_int d))"
proof -
  from assms(1) obtain c cs where d: "d = c # cs" and c: "is_digit c" and all: "list_all is_digit d"
    by (cases d) (auto simp: numeric_def)
  have S: "dropWhile is_white_space d = d"
    using c is_digit_plain(5) by (simp add: d)
  have sign: "(case d of [] \<Rightarrow> False | c # _ \<Rightarrow> c = 0x2D) = False"
    using c is_digit_plain(4) by (simp add: d)
  have S': "(case d of [] \<Rightarrow> [] | c # rest \<Rightarrow> if c = 0x2B \<or> c = 0x2D then rest else d) = d"
    using c is_digit_plain(3,4) by (simp add: d)
  have Z: "takeWhile is_digit d = d"
    using all by (simp add: takeWhile_eq_all_conv list_all_iff)
  have "d \<noteq> []"
    by (simp add: d)
  then have "parseInt10 d = (if math_int d = 0 then Finite 0 else to_number (int (math_int d)))"
    unfolding parseInt10_def Let_def S sign S' Z by simp
  then show ?thesis
    using assms(2) by (simp add: or_zero_def to_number_def round_magnitude_exact)
qed

lemma replace_v_version:
  assumes "numeric a1"
  shows "replace_v (version_string v a1 a2 a3) = a1 @ 0x2E # a2 @ 0x2E # a3"
proof (cases v)
  case True
  then show ?thesis by (simp add: version_string_def)
next
  case False
  from assms obtain c cs where "a1 = c # cs" "is_digit c"
    by (cases a1) (auto simp: numeric_def)
  with False show ?thesis
    using is_digit_plain(2) by (simp add: version_string_def)
qed

lemma parse_version:
  assumes "numeric a1" "numeric a2" "numeric a3"
    and "math_int a1 < 2 ^ 53" "math_int a2 < 2 ^ 53" "math_int a3 < 2 ^ 53"
  shows "parse (version_string v a1 a2 a3) =
    [Finite (int (math_int a1)), Finite (int (math_int a2)), Finite (int (math_int a3))]"
  using assms
  by (simp add: parse_def split_dot_def replace_v_version split_from_dot split_from_last
      numeric_no_dot component_numeric)

lemma compare_finite:
  "number_equal (Finite x) (Finite y) = (x = y)"
  "greater_than (Number (Finite x)) (Number (Finite y)) = (y < x)"
  by (auto simp: number_equal_def greater_than_def number_less_than_def)

lemma isNewerVersion_triples:
  assumes "parse a = [Finite (int a1), Finite (int a2), Finite (int a3)]"
    and "parse b = [Finite (int b1), Finite (int b2), Finite (int b3)]"
  shows "isNewerVersion a b = triple_greater (a1, a2, a3) (b1, b2, b3)"
  unfolding isNewerVersion_def Let_def assms
  by (auto simp: element_def compare_finite)

lemma round_magnitude_above:
  "round_magnitude 9007199254740992 = Some 9007199254740992"
  "round_magnitude 9007199254740993 = Some 9007199254740992"
  by (simp_all add: round_magnitude_def Let_def)

subsection \<open>Claims about isNewerVersion\<close>

text \<open>
  Claim C1, as amended. For version strings of exactly three numeric components, after
  an optional \<open>v\<close>, whose values are all below \<open>2 ^ 53\<close>, \<^verbatim>\<open>isNewerVersion(a, b)\<close> is
  true if and only if the triple of values of \<open>a\<close> exceeds the triple of \<open>b\<close> in the
  lexicographic order, the components compared as numbers; so \<^verbatim>\<open>isNewerVersion\<close> is
  true of \<^verbatim>\<open>"v2.0.0"\<close> over \<^verbatim>\<open>"1.9.9"\<close> and of \<^verbatim>\<open>"1.10.0"\<close> over \<^verbatim>\<open>"1.9.9"\<close>, and false
  of \<^verbatim>\<open>"1.2.3"\<close> over itself.
\<close>

theorem isNewerVersion_semver:
  "(\<forall>va a1 a2 a3 vb b1 b2 b3.
      numeric a1 \<and> numeric a2 \<and> numeric a3 \<and> numeric b1 \<and> numeric b2 \<and> numeric b3
      \<and> math_int a1 < 2 ^ 53 \<and> math_int a2 < 2 ^ 53 \<and> math_int a3 < 2 ^ 53
      \<and> math_int b1 < 2 ^ 53 \<and> math_int b2 < 2 ^ 53 \<and> math_int b3 < 2 ^ 53
      \<longrightarrow> isNewerVersion (version_string va a1 a2 a3) (version_string vb b1 b2 b3)
          = triple_greater (math_int a1, math_int a2, math_int a3)
              (math_int b1, math_int b2, math_int b3))
   \<and> isNewerVersion (js ''v2.0.0'') (js ''1.9.9'')
   \<and> isNewerVersion (js ''1.10.0'') (js ''1.9.9'')
   \<and> \<not> isNewerVersion (js ''1.2.3'') (js ''1.2.3'')"
proof (intro conjI allI impI)
  fix va a1 a2 a3 vb b1 b2 b3
  assume h: "numeric a1 \<and> numeric a2 \<and> numeric a3 \<and> numeric b1 \<and> numeric b2 \<and> numeric b3
      \<and> math_int a1 < 2 ^ 53 \<and> math_int a2 < 2 ^ 53 \<and> math_int a3 < 2 ^ 53
      \<and> math_int b1 < 2 ^ 53 \<and> math_int b2 < 2 ^ 53 \<and> math_int b3 < 2 ^ 53"
  then have "parse (version_string va a1 a2 a3) =
      [Finite (int (math_int a1)), Finite (int (math_int a2)), Finite (int (math_int a3))]"
    by (intro parse_version) simp_all
  moreover from h have "parse (version_string vb b1 b2 b3) =
      [Finite (int (math_int b1)), Finite (int (math_int b2)), Finite (int (math_int b3))]"
    by (intro parse_version) simp_all
  ultimately show "isNewerVersion (version_string va a1 a2 a3) (version_string vb b1 b2 b3)
      = triple_greater (math_int a1, math_int a2, math_int a3)
          (math_int b1, math_int b2, math_int b3)"
    by (rule isNewerVersion_triples)
next
  show "isNewerVersion (js ''v2.0.0'') (js ''1.9.9'')"
    by (simp add: version_eval)
next
  show "isNewerVersion (js ''1.10.0'') (js ''1.9.9'')"
    by (simp add: version_eval)
next
  show "\<not> isNewerVersion (js ''1.2.3'') (js ''1.2.3'')"
    by (simp add: version_eval)
qed

theorem isNewerVersion_semver_witness:
  "numeric (js ''1'') \<and> numeric (js ''10'') \<and> numeric (js ''0'') \<and> numeric (js ''9'')
   \<and> math_int (js ''1'') = 1 \<and> math_int (js ''10'') = 10 \<and> math_int (js ''0'') = 0
   \<and> math_int (js ''9'') = 9
   \<and> version_string False (js ''1'') (js ''10'') (js ''0'') = js ''1.10.0''
   \<and> version_string True (js ''1'') (js ''9'') (js ''9'') = js ''v1.9.9''
   \<and> isNewerVersion (version_string False (js ''1'') (js ''10'') (js ''0''))
        (version_string True (js ''1'') (js ''9'') (js ''9''))"
proof -
  have n: "numeric (js ''1'')" "numeric (js ''10'')" "numeric (js ''0'')" "numeric (js ''9'')"
    by (simp_all add: numeric_def js_def is_digit_def)
  have m: "math_int (js ''1'') = 1" "math_int (js ''10'') = 10" "math_int (js ''0'') = 0"
    "math_int (js ''9'') = 9"
    by (simp_all add: math_int_def js_def digit_value_def)
  have s: "version_string False (js ''1'') (js ''10'') (js ''0'') = js ''1.10.0''"
    "version_string True (js ''1'') (js ''9'') (js ''9'') = js ''v1.9.9''"
    by (simp_all add: version_string_def js_def)
  have "isNewerVersion (version_string False (js ''1'') (js ''10'') (js ''0''))
        (version_string True (js ''1'') (js ''9'') (js ''9''))
      = triple_greater (math_int (js ''1''), math_int (js ''10''), math_int (js ''0''))
          (math_int (js ''1''), math_int (js ''9''), math_int (js ''9''))"
    using isNewerVersion_semver n by (simp add: m)
  then show ?thesis
    using n s by (simp add: m)
qed

text \<open>
  Without the bound the equivalence fails: \<open>9007199254740993\<close> is \<open>2 ^ 53 + 1\<close>, which
  is not a Number and is read as \<open>2 ^ 53\<close>, so the larger triple is not newer.
\<close>

theorem isNewerVersion_semver_counterexample:
  "numeric (js ''9007199254740993'') \<and> numeric (js ''9007199254740992'') \<and> numeric (js ''0'')
   \<and> version_string False (js ''9007199254740993'') (js ''0'') (js ''0'')
       = js ''9007199254740993.0.0''
   \<and> version_string False (js ''9007199254740992'') (js ''0'') (js ''0'')
       = js ''9007199254740992.0.0''
   \<and> triple_greater
        (math_int (js ''9007199254740993''), math_int (js ''0''), math_int (js ''0''))
        (math_int (js ''9007199254740992''), math_int (js ''0''), math_int (js ''0''))
   \<and> \<not> isNewerVersion (js ''9007199254740993.0.0'') (js ''9007199254740992.0.0'')"
proof -
  have n: "numeric (js ''9007199254740993'')" "numeric (js ''9007199254740992'')"
    "numeric (js ''0'')"
    by (simp_all add: numeric_def js_def is_digit_def)
  have s: "version_string False (js ''9007199254740993'') (js ''0'') (js ''0'')
       = js ''9007199254740993.0.0''"
    "version_string False (js ''9007199254740992'') (js ''0'') (js ''0'')
       = js ''9007199254740992.0.0''"
    by (simp_all add: version_string_def js_def)
  have m: "math_int (js ''9007199254740993'') = 9007199254740993"
    "math_int (js ''9007199254740992'') = 9007199254740992" "math_int (js ''0'') = 0"
    by (simp_all add: math_int_def js_def digit_value_def)
  have p: "parse (js ''9007199254740993.0.0'') = [Finite 9007199254740992, Finite 0, Finite 0]"
    "parse (js ''9007199254740992.0.0'') = [Finite 9007199254740992, Finite 0, Finite 0]"
    by (simp_all add: parse_def split_dot_def js_def parseInt10_def is_white_space_def
        is_digit_def math_int_def digit_value_def or_zero_def to_number_def
        round_magnitude_above)
  have "\<not> isNewerVersion (js ''9007199254740993.0.0'') (js ''9007199254740992.0.0'')"
    unfolding isNewerVersion_def Let_def p
    by (simp add: element_def compare_finite)
  then show ?thesis
    using n s by (simp add: m)
qed

text \<open>
  Claim C2. A missing component should count as 0, so that \<^verbatim>\<open>"1.2.5"\<close> is newer than
  \<^verbatim>\<open>"1.2"\<close>. The code at that input: \<^verbatim>\<open>"1.2"\<close> has two components and its patch is
  \<^verbatim>\<open>undefined\<close>, so \<^verbatim>\<open>isNewerVersion("1.2.5", "1.2")\<close> is false, while it is true
  against \<^verbatim>\<open>"1.2.0"\<close>, and against \<^verbatim>\<open>"1.2."\<close>, whose empty third component is there
  and counts as 0.
\<close>

theorem missing_component_undefined:
  "parse (js ''1.2'') = [Finite 1, Finite 2]
   \<and> element (parse (js ''1.2'')) 2 = Undefined
   \<and> \<not> isNewerVersion (js ''1.2.5'') (js ''1.2'')
   \<and> isNewerVersion (js ''1.2.5'') (js ''1.2.0'')
   \<and> parse (js ''1.2.'') = [Finite 1, Finite 2, Finite 0]
   \<and> isNewerVersion (js ''1.2.5'') (js ''1.2.'')"
  by (simp add: version_eval)

text \<open>
  Claim C9. A string without any digit should compare as components of value 0.
  The code at an input where it does not: \<^verbatim>\<open>"abc"\<close> has the one component 0 and its
  minor and patch are \<^verbatim>\<open>undefined\<close>, so \<^verbatim>\<open>isNewerVersion("0.0.1", "abc")\<close> is false,
  while it is true against \<^verbatim>\<open>"0.0.0"\<close>. \<^verbatim>\<open>isNewerVersion("abc", "1.0.0")\<close> is false, as
  the claim says.
\<close>

theorem non_numeric_string_undefined:
  "parse (js ''abc'') = [Finite 0]
   \<and> element (parse (js ''abc'')) 1 = Undefined
   \<and> \<not> isNewerVersion (js ''0.0.1'') (js ''abc'')
   \<and> isNewerVersion (js ''0.0.1'') (js ''0.0.0'')
   \<and> \<not> isNewerVersion (js ''abc'') (js ''1.0.0'')"
  by (simp add: version_eval)

text \<open>
  Claim C10. For all strings \<open>a\<close> and \<open>b\<close>, \<^verbatim>\<open>isNewerVersion(a, b)\<close> and
  \<^verbatim>\<open>isNewerVersion(b, a)\<close> are never both true, and \<^verbatim>\<open>isNewerVersion(x, x)\<close> is false
  for every string \<open>x\<close>, well-formed or not.
\<close>

theorem isNewerVersion_asymmetric:
  "\<not> (isNewerVersion a b \<and> isNewerVersion b a) \<and> \<not> isNewerVersion x x"
proof -
  have asym: "\<not> (isNewerVersion a b \<and> isNewerVersion b a)" for a b
    unfolding isNewerVersion_def Let_def
    using greater_than_asym strict_not_equal_sym by (auto split: if_splits)
  from asym [of a b] asym [of x x] show ?thesis by blast
qed

subsection \<open>The steps of the hook\<close>

lemmas hook_eval =
  mount_def effect_def cleanup_def initial_state_def suspended_def resume_def
  after_response_def after_body_def catch_block_def setState_def abort_error_def

lemma run_append:
  "run h (xs @ ys) = (case run h xs of None \<Rightarrow> None | Some h' \<Rightarrow> run h' ys)"
  by (induction xs arbitrary: h) (auto split: option.splits)

lemma error_names:
  "err_name abort_error = js ''AbortError''"
  "err_name null_property_error \<noteq> js ''AbortError''"
  "err_name not_a_function_error \<noteq> js ''AbortError''"
  "js ''Error'' \<noteq> js ''AbortError''"
  by (simp_all add: abort_error_def null_property_error_def not_a_function_error_def js_def)

lemma call_isNewerVersion_error:
  "call_isNewerVersion v b = Inl e \<Longrightarrow> err_name e \<noteq> js ''AbortError''"
  by (cases v) (auto simp: error_names)

lemma after_body_error:
  "after_body cv data = Inl e \<Longrightarrow> err_name e \<noteq> js ''AbortError''"
  unfolding after_body_def Let_def
  by (cases data)
    (auto simp: error_names split: sum.splits option.splits if_splits
      dest: call_isNewerVersion_error)

lemma after_body_state:
  assumes "after_body cv data = Inr s"
  shows "currentVersion s = cv" "loading s = False" "error s = None"
    "updateAvailable s = update_expected s"
  using assms unfolding after_body_def update_expected_def Let_def
  by (auto split: sum.splits option.splits if_splits)

lemma state_catch_block:
  "state (catch_block e h) = state h \<or>
   state (catch_block e h) = (state h)\<lparr>loading := False, error := Some (err_message e)\<rparr>"
  by (simp add: catch_block_def setState_def)

lemma update_expected_catch:
  "update_expected (s\<lparr>loading := a, error := b\<rparr>) = update_expected s"
  by (simp add: update_expected_def split: option.splits)

lemma cleanup_simps [simp]:
  "state (cleanup h) = state h" "updates (cleanup h) = updates h"
  "length (requests (cleanup h)) = length (requests h)"
  by (simp_all add: cleanup_def Let_def)

lemma effect_simps [simp]:
  "state (effect cv h) = state h" "updates (effect cv h) = updates h"
  "requests (effect cv h) =
     requests h @ [\<lparr>captured = cv, aborted = False, stage = AwaitingResponse\<rparr>]"
  by (simp_all add: effect_def)

lemma resume_simps [simp]:
  "state (resume i st h) = state h" "updates (resume i st h) = updates h"
  "requests (resume i st h) = (requests h)[i := (requests h ! i)\<lparr>stage := st\<rparr>]"
  by (simp_all add: resume_def)

lemma setState_simps [simp]:
  "state (setState f h) = f (state h)" "updates (setState f h) = f (state h) # updates h"
  "requests (setState f h) = requests h"
  by (simp_all add: setState_def)

lemma catch_block_simps [simp]:
  "requests (catch_block e h) = requests h"
  "err_name e = js ''AbortError'' \<Longrightarrow> catch_block e h = h"
  "err_name e \<noteq> js ''AbortError'' \<Longrightarrow>
     catch_block e h = setState (\<lambda>prev. prev\<lparr>loading := False, error := Some (err_message e)\<rparr>) h"
  by (simp_all add: catch_block_def)

lemma requests_cleanup:
  "requests (cleanup h) =
     (if requests h = [] then []
      else (requests h)[length (requests h) - 1 := (last (requests h))\<lparr>aborted := True\<rparr>])"
  by (simp add: cleanup_def Let_def)

lemma step_expected:
  assumes "step h e = Some h'"
    and "updateAvailable (state h) = update_expected (state h)"
  shows "updateAvailable (state h') = update_expected (state h')"
proof (cases e)
  case (Activate cv)
  with assms show ?thesis by auto
next
  case Deactivate
  with assms show ?thesis by auto
next
  case (Response i ok st)
  with assms show ?thesis
    by (auto simp: catch_block_def update_expected_catch split: if_splits option.splits)
next
  case (TransportFailure i err)
  with assms show ?thesis
    by (auto simp: catch_block_def update_expected_catch split: if_splits)
next
  case (Body i data)
  with assms show ?thesis
    by (auto simp: catch_block_def update_expected_catch after_body_state(4)
        split: if_splits sum.splits)
next
  case (BodyFailure i err)
  with assms show ?thesis
    by (auto simp: catch_block_def update_expected_catch split: if_splits)
next
  case (Aborted i)
  with assms show ?thesis
    by (auto simp: catch_block_def update_expected_catch split: if_splits)
qed

lemma run_expected:
  "run h evs = Some h' \<Longrightarrow> updateAvailable (state h) = update_expected (state h) \<Longrightarrow>
     updateAvailable (state h') = update_expected (state h')"
proof (induction evs arbitrary: h)
  case Nil
  then show ?case by simp
next
  case (Cons e evs)
  then show ?case
    by (auto split: option.splits dest: step_expected)
qed

lemma mount_expected:
  "updateAvailable (state (mount cv)) = update_expected (state (mount cv))"
  by (simp add: mount_def effect_def initial_state_def update_expected_def split: option.splits)

lemma after_body_null: "after_body None data = Inr s \<Longrightarrow> \<not> updateAvailable s"
  unfolding after_body_def Let_def
  by (auto split: sum.splits option.splits if_splits)

lemma captured_update:
  "list_all (\<lambda>r. captured r = None) rs \<Longrightarrow> i < length rs \<Longrightarrow>
     list_all (\<lambda>r. captured r = None) (rs[i := (rs ! i)\<lparr>stage := st\<rparr>])
     \<and> list_all (\<lambda>r. captured r = None) (rs[i := (rs ! i)\<lparr>aborted := b\<rparr>])
     \<and> captured (rs ! i) = None"
  by (auto simp: list_all_iff dest!: set_update_subset_insert [THEN subsetD])

lemma step_never_current:
  assumes "step h e = Some h'" and "never_current h" and "\<forall>v. e \<noteq> Activate (Some v)"
  shows "never_current h'"
proof (cases e)
  case (Activate cv)
  with assms(3) have "cv = None" by (cases cv) auto
  with Activate assms(1,2) show ?thesis
    using captured_update [of "requests h" "length (requests h) - 1"]
    by (auto simp: never_current_def requests_cleanup last_conv_nth)
next
  case Deactivate
  with assms(1,2) show ?thesis
    using captured_update [of "requests h" "length (requests h) - 1"]
    by (auto simp: never_current_def requests_cleanup last_conv_nth)
next
  case (Response i ok st)
  with assms(1,2) show ?thesis
    using captured_update [of "requests h" i]
    by (auto simp: never_current_def catch_block_def suspended_def
        split: if_splits option.splits)
next
  case (TransportFailure i err)
  with assms(1,2) show ?thesis
    using captured_update [of "requests h" i]
    by (auto simp: never_current_def catch_block_def suspended_def split: if_splits)
next
  case (Body i data)
  with assms(1,2) show ?thesis
    using captured_update [of "requests h" i]
    by (auto simp: never_current_def catch_block_def suspended_def
        split: if_splits sum.splits dest: after_body_null)
next
  case (BodyFailure i err)
  with assms(1,2) show ?thesis
    using captured_update [of "requests h" i]
    by (auto simp: never_current_def catch_block_def suspended_def split: if_splits)
next
  case (Aborted i)
  with assms(1,2) show ?thesis
    using captured_update [of "requests h" i]
    by (auto simp: never_current_def catch_block_def split: if_splits)
qed

lemma run_never_current:
  "run h evs = Some h' \<Longrightarrow> never_current h \<Longrightarrow> \<forall>v. Activate (Some v) \<notin> set evs \<Longrightarrow>
     never_current h'"
proof (induction evs arbitrary: h)
  case Nil
  then show ?case by simp
next
  case (Cons e evs)
  from Cons.prems(1) obtain g where g: "step h e = Some g" "run g evs = Some h'"
    by (auto split: option.splits)
  from Cons.prems(3) have "\<forall>v. e \<noteq> Activate (Some v)"
    by auto
  with g(1) Cons.prems(2) have "never_current g"
    by (intro step_never_current [of h e g]) auto
  with g(2) Cons.prems(3) show ?case
    by (intro Cons.IH [of g]) auto
qed

lemma newer_examples:
  "isNewerVersion (js ''v1.4.0'') (js ''1.3.0'')"
  "isNewerVersion (js ''v2.0.0'') (js ''1.0.0'')"
  by (simp_all add: version_eval)

lemma mount_never_current: "never_current (mount None)"
  by (simp add: never_current_def mount_def initial_state_def)

lemma nth_update_stage:
  "n < length rs \<Longrightarrow>
     aborted (rs[i := (rs ! i)\<lparr>stage := st\<rparr>] ! n) = aborted (rs ! n)
     \<and> captured (rs[i := (rs ! i)\<lparr>stage := st\<rparr>] ! n) = captured (rs ! n)"
  by (cases "i = n") auto

lemma update_aborted:
  "list_all aborted rs \<Longrightarrow> list_all aborted (rs[i := (rs ! i)\<lparr>stage := st\<rparr>])"
  by (auto simp: list_all_length nth_update_stage)

lemma butlast_update_stage:
  "list_all aborted (butlast rs) \<Longrightarrow>
     list_all aborted (butlast (rs[i := (rs ! i)\<lparr>stage := st\<rparr>]))"
  by (auto simp: list_all_length nth_butlast nth_update_stage)

lemma cleanup_all_aborted:
  "superseded_aborted h \<Longrightarrow> list_all aborted (requests (cleanup h))"
proof (cases "requests h" rule: rev_cases)
  case Nil
  then show ?thesis by (simp add: requests_cleanup)
next
  case (snoc rs r)
  assume "superseded_aborted h"
  with snoc show ?thesis
    by (simp add: requests_cleanup superseded_aborted_def)
qed

lemma step_superseded:
  assumes "step h e = Some h'" and "superseded_aborted h"
  shows "superseded_aborted h'"
proof (cases e)
  case (Activate cv)
  with assms show ?thesis
    using cleanup_all_aborted [of h] by (auto simp: superseded_aborted_def)
next
  case Deactivate
  with assms show ?thesis
    using cleanup_all_aborted [of h]
    by (cases "requests (cleanup h)" rule: rev_cases) (auto simp: superseded_aborted_def)
next
  case (Response i ok st)
  with assms show ?thesis
    by (auto simp: superseded_aborted_def butlast_update_stage split: if_splits option.splits)
next
  case (TransportFailure i err)
  with assms show ?thesis
    by (auto simp: superseded_aborted_def butlast_update_stage split: if_splits)
next
  case (Body i data)
  with assms show ?thesis
    by (auto simp: superseded_aborted_def butlast_update_stage split: if_splits sum.splits)
next
  case (BodyFailure i err)
  with assms show ?thesis
    by (auto simp: superseded_aborted_def butlast_update_stage split: if_splits)
next
  case (Aborted i)
  with assms show ?thesis
    by (auto simp: superseded_aborted_def butlast_update_stage split: if_splits)
qed

lemma run_superseded:
  "run h evs = Some h' \<Longrightarrow> superseded_aborted h \<Longrightarrow> superseded_aborted h'"
  by (induction evs arbitrary: h) (auto split: option.splits dest: step_superseded)

lemma mount_superseded: "superseded_aborted (mount cv)"
  by (simp add: superseded_aborted_def mount_def)

lemma step_all_aborted:
  assumes "step h e = Some h'" and "list_all aborted (requests h)" and "\<not> activation e"
  shows "list_all aborted (requests h') \<and> state h' = state h \<and> updates h' = updates h"
proof (cases e)
  case (Activate cv)
  with assms(3) show ?thesis by simp
next
  case Deactivate
  with assms(1,2) show ?thesis
    by (cases "requests h" rule: rev_cases) (auto simp: requests_cleanup)
next
  case (Response i ok st)
  with assms(1,2) show ?thesis
    by (auto simp: suspended_def list_all_length split: if_splits)
next
  case (TransportFailure i err)
  with assms(1,2) show ?thesis
    by (auto simp: suspended_def list_all_length split: if_splits)
next
  case (Body i data)
  with assms(1,2) show ?thesis
    by (auto simp: suspended_def list_all_length split: if_splits)
next
  case (BodyFailure i err)
  with assms(1,2) show ?thesis
    by (auto simp: suspended_def list_all_length split: if_splits)
next
  case (Aborted i)
  with assms(1,2) show ?thesis
    by (auto simp: error_names(1) update_aborted split: if_splits)
qed

lemma run_all_aborted:
  "run h evs = Some h' \<Longrightarrow> list_all aborted (requests h) \<Longrightarrow> \<not> list_ex activation evs \<Longrightarrow>
     state h' = state h \<and> updates h' = updates h"
proof (induction evs arbitrary: h)
  case Nil
  then show ?case by simp
next
  case (Cons e evs)
  from Cons.prems(1) obtain g where g: "step h e = Some g" "run g evs = Some h'"
    by (auto split: option.splits)
  from g(1) Cons.prems(2,3) have "list_all aborted (requests g) \<and> state g = state h \<and> updates g = updates h"
    by (intro step_all_aborted [of h e g]) auto
  with g(2) Cons.prems(3) Cons.IH [of g] show ?case
    by auto
qed

lemma latest_suspended:
  assumes "latest_outcome k cv s0 u0 es g" and "suspended g i st"
  shows "i = k"
proof -
  from assms have "i < Suc k" "\<not> aborted (requests g ! i)"
    by (simp_all add: latest_outcome_def suspended_def)
  moreover from assms(1) have "\<forall>j<k. aborted (requests g ! j)"
    by (auto simp: latest_outcome_def list_all_length nth_butlast)
  ultimately show "i = k"
    by (metis less_antisym)
qed

lemma latest_aborted:
  assumes "latest_outcome k cv s0 u0 es g" and "i < length (requests g)"
    and "aborted (requests g ! i)"
  shows "i < k"
  using assms by (cases "i = k") (auto simp: latest_outcome_def)

lemma latest_resume:
  assumes "latest_outcome k cv s0 u0 es g" and "st \<noteq> Settled"
    and "stage (requests g ! k) \<noteq> Settled" and "\<not> settling k e"
  shows "latest_outcome k cv s0 u0 (es @ [e]) (resume k st g)"
  using assms
  by (auto simp: latest_outcome_def butlast_update_stage)

lemma latest_settle:
  assumes "latest_outcome k cv s0 u0 es g" and "stage (requests g ! k) \<noteq> Settled"
    and "settling k e" and "state g' = outcome cv s0 e" and "updates g' = state g' # u0"
    and "requests g' = requests (resume k Settled g)"
  shows "latest_outcome k cv s0 u0 (es @ [e]) g'"
  using assms
  by (auto simp: latest_outcome_def butlast_update_stage)

lemma latest_other:
  assumes "latest_outcome k cv s0 u0 es g" and "i < k" and "\<not> settling k e"
  shows "latest_outcome k cv s0 u0 (es @ [e]) (resume i st g)"
  using assms
  by (auto simp: latest_outcome_def butlast_update_stage)

lemma step_latest:
  assumes "latest_outcome k cv s0 u0 es g" and "step g e = Some g'" and "\<not> by_caller e"
  shows "latest_outcome k cv s0 u0 (es @ [e]) g'"
proof (cases e)
  case (Activate cv')
  with assms(3) show ?thesis by simp
next
  case Deactivate
  with assms(3) show ?thesis by simp
next
  case (Response i ok st)
  with assms(2) have s: "suspended g i AwaitingResponse"
    by (simp split: if_splits)
  with assms(1) have i: "i = k"
    by (rule latest_suspended)
  with s have st: "stage (requests g ! k) \<noteq> Settled"
    by (simp add: suspended_def)
  with assms(1) have s0: "state g = s0" "updates g = u0"
    by (simp_all add: latest_outcome_def)
  show ?thesis
  proof (cases ok)
    case True
    with assms(2) Response s i have "g' = resume k AwaitingBody g"
      by (simp add: after_response_def)
    with True Response i show ?thesis
      using latest_resume [OF assms(1) _ st, of AwaitingBody e] by simp
  next
    case False
    with assms(2) Response s i
    have "g' = catch_block (JsError (js ''Error'') (js ''Version check failed: '' @ st))
        (resume k Settled g)"
      by (simp add: after_response_def)
    with False Response i s0 show ?thesis
      by (intro latest_settle [OF assms(1) st]) (simp_all add: error_names(4))
  qed
next
  case (TransportFailure i err)
  with assms(2) have s: "suspended g i AwaitingResponse" and n: "err_name err \<noteq> js ''AbortError''"
    by (simp_all split: if_splits)
  from assms(1) s have i: "i = k"
    by (rule latest_suspended)
  with s have st: "stage (requests g ! k) \<noteq> Settled"
    by (simp add: suspended_def)
  with assms(1) have s0: "state g = s0" "updates g = u0"
    by (simp_all add: latest_outcome_def)
  from assms(2) TransportFailure s n i have "g' = catch_block err (resume k Settled g)"
    by simp
  with TransportFailure i s0 n show ?thesis
    by (intro latest_settle [OF assms(1) st]) simp_all
next
  case (Body i data)
  with assms(2) have s: "suspended g i AwaitingBody"
    by (simp split: if_splits)
  with assms(1) have i: "i = k"
    by (rule latest_suspended)
  with s have st: "stage (requests g ! k) \<noteq> Settled"
    by (simp add: suspended_def)
  with assms(1) have s0: "state g = s0" "updates g = u0"
    by (simp_all add: latest_outcome_def)
  from assms(1) have c: "captured (requests g ! k) = cv"
    by (simp add: latest_outcome_def)
  show ?thesis
  proof (cases "after_body cv data")
    case (Inl err)
    then have n: "err_name err \<noteq> js ''AbortError''"
      by (rule after_body_error)
    from assms(2) Body s i c Inl have "g' = catch_block err (resume k Settled g)"
      by simp
    with Body i s0 n Inl show ?thesis
      by (intro latest_settle [OF assms(1) st]) simp_all
  next
    case (Inr s')
    with assms(2) Body s i c have "g' = setState (\<lambda>prev. s') (resume k Settled g)"
      by simp
    with Body i s0 Inr show ?thesis
      by (intro latest_settle [OF assms(1) st]) simp_all
  qed
next
  case (BodyFailure i err)
  with assms(2) have s: "suspended g i AwaitingBody" and n: "err_name err \<noteq> js ''AbortError''"
    by (simp_all split: if_splits)
  from assms(1) s have i: "i = k"
    by (rule latest_suspended)
  with s have st: "stage (requests g ! k) \<noteq> Settled"
    by (simp add: suspended_def)
  with assms(1) have s0: "state g = s0" "updates g = u0"
    by (simp_all add: latest_outcome_def)
  from assms(2) BodyFailure s n i have "g' = catch_block err (resume k Settled g)"
    by simp
  with BodyFailure i s0 n show ?thesis
    by (intro latest_settle [OF assms(1) st]) simp_all
next
  case (Aborted i)
  with assms(2) have "i < length (requests g)" "aborted (requests g ! i)"
    by (simp_all split: if_splits)
  with assms(1) have "i < k"
    by (rule latest_aborted)
  with assms(2) Aborted show ?thesis
    using latest_other [OF assms(1), of i e Settled]
    by (auto simp: error_names(1) split: if_splits)
qed

lemma run_latest:
  assumes "latest_outcome k cv s0 u0 [] g"
  shows "run g es = Some g' \<Longrightarrow> \<not> list_ex by_caller es \<Longrightarrow> latest_outcome k cv s0 u0 es g'"
proof (induction es arbitrary: g' rule: rev_induct)
  case Nil
  with assms show ?case by simp
next
  case (snoc e es)
  from snoc.prems(1) obtain g1 where g1: "run g es = Some g1" "step g1 e = Some g'"
    by (auto simp: run_append split: option.splits)
  with snoc.prems(2) snoc.IH [of g1] have "latest_outcome k cv s0 u0 es g1"
    by simp
  with g1(2) snoc.prems(2) show ?case
    by (intro step_latest [of k cv s0 u0 es g1 e g']) auto
qed

lemma activate_latest:
  assumes "superseded_aborted h"
  shows "latest_outcome (length (requests h)) cv (state h) (updates h) [] (effect cv (cleanup h))"
  using cleanup_all_aborted [OF assms]
  by (simp add: latest_outcome_def nth_append)

lemma latest_decided:
  assumes "latest_outcome k cv s0 u0 es g" and "e \<in> set es" and "settling k e"
  shows "state g = outcome cv s0 e" "stage (requests g ! k) = Settled"
proof -
  from assms(2,3) have "e \<in> set (filter (settling k) es)"
    by simp
  then have ne: "filter (settling k) es \<noteq> []"
    by (metis empty_iff empty_set)
  with assms(1) show st: "stage (requests g ! k) = Settled"
    by (auto simp: latest_outcome_def split: if_splits)
  with assms(1) obtain e' where e': "filter (settling k) es = [e']" "state g = outcome cv s0 e'"
    by (auto simp: latest_outcome_def)
  with \<open>e \<in> set (filter (settling k) es)\<close> have "e = e'"
    by simp
  with e'(2) show "state g = outcome cv s0 e"
    by simp
qed

lemma latest_settled:
  assumes "latest_outcome k cv s0 u0 es g" and "stage (requests g ! k) = Settled"
  shows "list_ex (settling k) es" "updates g = state g # u0" "loading (state g) = False"
proof -
  from assms obtain e where e: "filter (settling k) es = [e]" "state g = outcome cv s0 e"
    and u: "updates g = state g # u0"
    by (auto simp: latest_outcome_def)
  from e(1) have "e \<in> set (filter (settling k) es)"
    by simp
  then have m: "e \<in> set es" "settling k e"
    by simp_all
  then show "list_ex (settling k) es"
    by (auto simp: list_ex_iff)
  from u show "updates g = state g # u0" .
  from m(2) e(2) show "loading (state g) = False"
    by (cases e) (auto split: sum.splits dest: after_body_state(2))
qed

lemma latest_pending:
  assumes "latest_outcome k cv s0 u0 es g" and "stage (requests g ! k) \<noteq> Settled"
  shows "state g = s0 \<and> updates g = u0"
  using assms by (simp add: latest_outcome_def)

lemma latest_last:
  assumes "latest_outcome k cv s0 u0 es g"
  shows "last (requests g) = requests g ! k"
proof -
  from assms have "length (requests g) = Suc k"
    by (simp add: latest_outcome_def)
  then show ?thesis
    using last_conv_nth [of "requests g"] by (cases "requests g") simp_all
qed

lemma null_outcome:
  "settling k e \<Longrightarrow> updateAvailable (outcome None s0 e) \<Longrightarrow> updateAvailable s0"
  by (cases e) (auto split: sum.splits dest: after_body_null)

lemma null_activation_keeps:
  assumes "latest_outcome k None s0 u0 es g" and "updateAvailable (state g)"
  shows "updateAvailable s0"
proof (cases "stage (requests g ! k) = Settled")
  case False
  with assms show ?thesis
    by (simp add: latest_outcome_def)
next
  case True
  with assms(1) obtain e where e: "filter (settling k) es = [e]" "state g = outcome None s0 e"
    by (auto simp: latest_outcome_def)
  from e(1) have "e \<in> set (filter (settling k) es)"
    by simp
  then have "settling k e"
    by simp
  with e(2) assms(2) show ?thesis
    using null_outcome [of k e s0] by simp
qed

subsection \<open>Claims about useVersionCheck\<close>

text \<open>
  Claim C3, as amended. In every state the hook reaches, \<open>updateAvailable\<close> is true
  if and only if the \<open>latestVersion\<close> and the \<open>currentVersion\<close> of that state are
  both there and \<^verbatim>\<open>isNewerVersion\<close> is true of them. When the hook is mounted with no
  current version and every later activation has none either, \<open>updateAvailable\<close> is
  false in every state it reaches, whatever the feed answers. An activation with no
  current version never turns \<open>updateAvailable\<close> true: where it was false when the
  activation began, it is false in every state reached during that activation.
\<close>

theorem updateAvailable_invariant:
  "(\<forall>cv evs h. run (mount cv) evs = Some h \<longrightarrow>
       updateAvailable (state h) = update_expected (state h))
   \<and> (\<forall>evs h. run (mount None) evs = Some h \<and> (\<forall>v. Activate (Some v) \<notin> set evs) \<longrightarrow>
       \<not> updateAvailable (state h))
   \<and> (\<forall>cv evs h evs' h'.
        run (mount cv) evs = Some h \<and> run h (Activate None # evs') = Some h'
          \<and> \<not> list_ex by_caller evs' \<and> \<not> updateAvailable (state h)
        \<longrightarrow> \<not> updateAvailable (state h'))"
proof (intro conjI allI impI)
  fix cv evs h
  assume "run (mount cv) evs = Some h"
  then show "updateAvailable (state h) = update_expected (state h)"
    using mount_expected by (rule run_expected)
next
  fix evs h
  assume "run (mount None) evs = Some h \<and> (\<forall>v. Activate (Some v) \<notin> set evs)"
  with mount_never_current have "never_current h"
    by (intro run_never_current [of "mount None" evs h]) auto
  then show "\<not> updateAvailable (state h)"
    by (simp add: never_current_def)
next
  fix cv evs h evs' h'
  assume a: "run (mount cv) evs = Some h \<and> run h (Activate None # evs') = Some h'
          \<and> \<not> list_ex by_caller evs' \<and> \<not> updateAvailable (state h)"
  then have "superseded_aborted h"
    using mount_superseded run_superseded by blast
  then have "latest_outcome (length (requests h)) None (state h) (updates h) []
      (effect None (cleanup h))"
    by (rule activate_latest)
  moreover from a have "run (effect None (cleanup h)) evs' = Some h'"
    by simp
  ultimately have "latest_outcome (length (requests h)) None (state h) (updates h) evs' h'"
    using a
    by (intro run_latest [of "length (requests h)" None "state h" "updates h"
          "effect None (cleanup h)" evs' h']) auto
  with a show "\<not> updateAvailable (state h')"
    using null_activation_keeps by blast
qed

theorem updateAvailable_invariant_witness:
  "map_option (update_expected \<circ> state)
     (run (mount (Some (js ''1.3.0'')) :: int hook)
        [Response 0 True (js ''OK''),
         Body 0 (JObject [(js ''tag_name'', JString (js ''v1.4.0''))])]) = Some True
   \<and> map_option (updateAvailable \<circ> state)
     (run (mount None :: int hook)
        [Response 0 True (js ''OK''),
         Body 0 (JObject [(js ''tag_name'', JString (js ''v1.4.0''))])]) = Some False
   \<and> map_option (updateAvailable \<circ> state)
     (run (mount (Some (js ''1.3.0'')) :: int hook)
        [Activate None, Aborted 0, Response 1 True (js ''OK''),
         Body 1 (JObject [(js ''tag_name'', JString (js ''v1.4.0''))])]) = Some False"
proof -
  let ?evs = "[Response 0 True (js ''OK''),
         Body 0 (JObject [(js ''tag_name'', JString (js ''v1.4.0''))])] :: int event list"
  let ?evs' = "[Aborted 0, Response 1 True (js ''OK''),
         Body 1 (JObject [(js ''tag_name'', JString (js ''v1.4.0''))])] :: int event list"
  let ?m = "mount (Some (js ''1.3.0'')) :: int hook"
  let ?r1 = "run ?m ?evs"
  let ?r2 = "run (mount None) ?evs"
  let ?r3 = "run ?m (Activate None # ?evs')"
  have e1: "map_option (updateAvailable \<circ> state) ?r1 = Some True"
    by (simp add: hook_eval newer_examples)
  have "map_option (update_expected \<circ> state) ?r1 = map_option (updateAvailable \<circ> state) ?r1"
    using updateAvailable_invariant [THEN conjunct1, rule_format, of "Some (js ''1.3.0'')" ?evs]
    by (cases ?r1) simp_all
  with e1 have w1: "map_option (update_expected \<circ> state) ?r1 = Some True"
    by simp
  have e2: "?r2 \<noteq> None"
    by (simp add: hook_eval)
  have "\<forall>v. Activate (Some v) \<notin> set ?evs"
    by simp
  with e2 have w2: "map_option (updateAvailable \<circ> state) ?r2 = Some False"
    using updateAvailable_invariant [THEN conjunct2, THEN conjunct1, rule_format, of ?evs]
    by (cases ?r2) simp_all
  obtain h' where h': "?r3 = Some h'"
    by (simp add: hook_eval)
  have m: "run ?m [] = Some ?m" "\<not> updateAvailable (state ?m)" "\<not> list_ex by_caller ?evs'"
    by (simp_all add: mount_def initial_state_def)
  with h' have "\<not> updateAvailable (state h')"
    using updateAvailable_invariant [THEN conjunct2, THEN conjunct2, rule_format,
        of "Some (js ''1.3.0'')" "[]" ?m ?evs' h']
    by blast
  with h' have w3: "map_option (updateAvailable \<circ> state) ?r3 = Some False"
    by (simp only: option.map comp_apply)
  from w1 w2 w3 show ?thesis
    by simp
qed

text \<open>
  An activation does not reset the state: after a check that found an update, an
  activation with no current version still shows \<open>updateAvailable\<close>, and keeps
  showing it when its own request fails.
\<close>

theorem updateAvailable_counterexample:
  "map_option state
     (run (mount (Some (js ''1.0.0'')) :: int hook)
        [Response 0 True (js ''OK''),
         Body 0 (JObject [(js ''tag_name'', JString (js ''v2.0.0''))]),
         Activate None,
         Response 1 False (js ''Internal Server Error'')])
   = Some \<lparr>latestVersion = JString (js ''v2.0.0''), currentVersion = Some (js ''1.0.0''),
        updateAvailable = True, loading = False,
        error = Some (js ''Version check failed: '' @ js ''Internal Server Error'')\<rparr>"
  by (simp add: hook_eval newer_examples error_names)

text \<open>
  Claim C4, as amended. After an activation, whatever arrives for the requests it
  superseded sets no state. Until the request of the latest activation settles, the
  state is the one held before that activation. When it settles, exactly one state
  has been set, with \<open>loading\<close> false, and the event that settled it decides that
  state: a body the hook can read gives the state computed from the \<^verbatim>\<open>currentVersion\<close>
  of the latest activation and that body, with that \<^verbatim>\<open>currentVersion\<close> and no error;
  a body it cannot read, a status that is not a success, or a rejection gives the
  state held before the activation with \<open>loading\<close> cleared and the message of that
  failure as \<open>error\<close>.
\<close>

theorem latest_activation_wins:
  "\<forall>cv evs h cv' evs' h'.
     run (mount cv) evs = Some h \<and> run h (Activate cv' # evs') = Some h'
       \<and> \<not> list_ex by_caller evs' \<longrightarrow>
       (stage (last (requests h')) \<noteq> Settled \<longrightarrow>
          state h' = state h \<and> updates h' = updates h)
     \<and> (stage (last (requests h')) = Settled \<longrightarrow>
          updates h' = state h' # updates h \<and> loading (state h') = False
          \<and> list_ex (settling (length (requests h))) evs')
     \<and> (\<forall>data s. Body (length (requests h)) data \<in> set evs' \<and> after_body cv' data = Inr s \<longrightarrow>
          state h' = s \<and> currentVersion (state h') = cv' \<and> error (state h') = None)
     \<and> (\<forall>data e. Body (length (requests h)) data \<in> set evs' \<and> after_body cv' data = Inl e \<longrightarrow>
          state h' = (state h)\<lparr>loading := False, error := Some (err_message e)\<rparr>)
     \<and> (\<forall>statusText. Response (length (requests h)) False statusText \<in> set evs' \<longrightarrow>
          state h' = (state h)\<lparr>loading := False,
            error := Some (js ''Version check failed: '' @ statusText)\<rparr>)
     \<and> (\<forall>e. TransportFailure (length (requests h)) e \<in> set evs' \<longrightarrow>
          state h' = (state h)\<lparr>loading := False, error := Some (err_message e)\<rparr>)
     \<and> (\<forall>e. BodyFailure (length (requests h)) e \<in> set evs' \<longrightarrow>
          state h' = (state h)\<lparr>loading := False, error := Some (err_message e)\<rparr>)"
proof (intro allI impI)
  fix cv evs h cv' evs' h'
  assume a: "run (mount cv) evs = Some h \<and> run h (Activate cv' # evs') = Some h'
       \<and> \<not> list_ex by_caller evs'"
  let ?k = "length (requests h)"
  from a have "superseded_aborted h"
    using mount_superseded run_superseded by blast
  then have "latest_outcome ?k cv' (state h) (updates h) [] (effect cv' (cleanup h))"
    by (rule activate_latest)
  moreover from a have "run (effect cv' (cleanup h)) evs' = Some h'"
    by simp
  ultimately have inv: "latest_outcome ?k cv' (state h) (updates h) evs' h'"
    using a by (intro run_latest [of ?k cv' "state h" "updates h" "effect cv' (cleanup h)" evs' h']) auto
  note last = latest_last [OF inv]
  have pending: "stage (last (requests h')) \<noteq> Settled \<longrightarrow>
      state h' = state h \<and> updates h' = updates h"
    using latest_pending [OF inv] last by simp
  have settled: "stage (last (requests h')) = Settled \<longrightarrow>
      updates h' = state h' # updates h \<and> loading (state h') = False
      \<and> list_ex (settling ?k) evs'"
    using latest_settled [OF inv] last by simp
  have success: "\<forall>data s. Body ?k data \<in> set evs' \<and> after_body cv' data = Inr s \<longrightarrow>
      state h' = s \<and> currentVersion (state h') = cv' \<and> error (state h') = None"
    using latest_decided(1) [OF inv, of "Body ?k _"] after_body_state(1,3) by fastforce
  have unreadable: "\<forall>data e. Body ?k data \<in> set evs' \<and> after_body cv' data = Inl e \<longrightarrow>
      state h' = (state h)\<lparr>loading := False, error := Some (err_message e)\<rparr>"
    using latest_decided(1) [OF inv, of "Body ?k _"] by fastforce
  have status: "\<forall>statusText. Response ?k False statusText \<in> set evs' \<longrightarrow>
      state h' = (state h)\<lparr>loading := False,
        error := Some (js ''Version check failed: '' @ statusText)\<rparr>"
    using latest_decided(1) [OF inv, of "Response ?k False _"] by fastforce
  have transport: "\<forall>e. TransportFailure ?k e \<in> set evs' \<longrightarrow>
      state h' = (state h)\<lparr>loading := False, error := Some (err_message e)\<rparr>"
    using latest_decided(1) [OF inv, of "TransportFailure ?k _"] by fastforce
  have body: "\<forall>e. BodyFailure ?k e \<in> set evs' \<longrightarrow>
      state h' = (state h)\<lparr>loading := False, error := Some (err_message e)\<rparr>"
    using latest_decided(1) [OF inv, of "BodyFailure ?k _"] by fastforce
  from pending settled success unreadable status transport body
  show "(stage (last (requests h')) \<noteq> Settled \<longrightarrow>
          state h' = state h \<and> updates h' = updates h)
     \<and> (stage (last (requests h')) = Settled \<longrightarrow>
          updates h' = state h' # updates h \<and> loading (state h') = False
          \<and> list_ex (settling (length (requests h))) evs')
     \<and> (\<forall>data s. Body (length (requests h)) data \<in> set evs' \<and> after_body cv' data = Inr s \<longrightarrow>
          state h' = s \<and> currentVersion (state h') = cv' \<and> error (state h') = None)
     \<and> (\<forall>data e. Body (length (requests h)) data \<in> set evs' \<and> after_body cv' data = Inl e \<longrightarrow>
          state h' = (state h)\<lparr>loading := False, error := Some (err_message e)\<rparr>)
     \<and> (\<forall>statusText. Response (length (requests h)) False statusText \<in> set evs' \<longrightarrow>
          state h' = (state h)\<lparr>loading := False,
            error := Some (js ''Version check failed: '' @ statusText)\<rparr>)
     \<and> (\<forall>e. TransportFailure (length (requests h)) e \<in> set evs' \<longrightarrow>
          state h' = (state h)\<lparr>loading := False, error := Some (err_message e)\<rparr>)
     \<and> (\<forall>e. BodyFailure (length (requests h)) e \<in> set evs' \<longrightarrow>
          state h' = (state h)\<lparr>loading := False, error := Some (err_message e)\<rparr>)"
    by blast
qed

theorem latest_activation_wins_witness:
  "map_option state
     (run (mount (Some (js ''1.0.0'')) :: int hook)
        [Activate (Some (js ''2.0.0'')), Aborted 0, Response 1 True (js ''OK'')])
     = Some (initial_state (Some (js ''1.0.0'')))
   \<and> map_option state
     (run (mount (Some (js ''1.0.0'')) :: int hook)
        [Activate (Some (js ''2.0.0'')), Aborted 0, Response 1 True (js ''OK''),
         Body 1 (JObject [(js ''tag_name'', JString (js ''v2.1.0''))])])
     = Some \<lparr>latestVersion = JString (js ''v2.1.0''), currentVersion = Some (js ''2.0.0''),
          updateAvailable = True, loading = False, error = None\<rparr>
   \<and> map_option updates
     (run (mount (Some (js ''1.0.0'')) :: int hook)
        [Activate (Some (js ''2.0.0'')), Aborted 0, Response 1 True (js ''OK''),
         Body 1 (JObject [(js ''tag_name'', JString (js ''v2.1.0''))])])
     = Some [\<lparr>latestVersion = JString (js ''v2.1.0''), currentVersion = Some (js ''2.0.0''),
          updateAvailable = True, loading = False, error = None\<rparr>]
   \<and> map_option state
     (run (mount (Some (js ''1.0.0'')) :: int hook)
        [Activate (Some (js ''2.0.0'')), Response 1 True (js ''OK''), Body 1 JNull])
     = Some ((initial_state (Some (js ''1.0.0'')))
          \<lparr>loading := False, error := Some (err_message null_property_error)\<rparr>)
   \<and> map_option state
     (run (mount (Some (js ''1.0.0'')) :: int hook)
        [Activate (Some (js ''2.0.0'')), Response 1 False (js ''Not Found'')])
     = Some ((initial_state (Some (js ''1.0.0'')))
          \<lparr>loading := False, error := Some (js ''Version check failed: '' @ js ''Not Found'')\<rparr>)
   \<and> map_option state
     (run (mount (Some (js ''1.0.0'')) :: int hook)
        [Activate (Some (js ''2.0.0'')),
         TransportFailure 1 (JsError (js ''TypeError'') (js ''Failed to fetch''))])
     = Some ((initial_state (Some (js ''1.0.0'')))
          \<lparr>loading := False, error := Some (js ''Failed to fetch'')\<rparr>)
   \<and> map_option state
     (run (mount (Some (js ''1.0.0'')) :: int hook)
        [Activate (Some (js ''2.0.0'')), Response 1 True (js ''OK''),
         BodyFailure 1 (JsError (js ''SyntaxError'') (js ''Unexpected end of JSON input''))])
     = Some ((initial_state (Some (js ''1.0.0'')))
          \<lparr>loading := False, error := Some (js ''Unexpected end of JSON input'')\<rparr>)"
proof -
  let ?m = "mount (Some (js ''1.0.0'')) :: int hook"
  let ?cv = "Some (js ''2.0.0'')"
  let ?data = "JObject [(js ''tag_name'', JString (js ''v2.1.0''))] :: int json"
  let ?s = "\<lparr>latestVersion = JString (js ''v2.1.0'') :: int json,
          currentVersion = Some (js ''2.0.0''),
          updateAvailable = True, loading = False, error = None\<rparr>"
  let ?t = "JsError (js ''TypeError'') (js ''Failed to fetch'')"
  let ?b = "JsError (js ''SyntaxError'') (js ''Unexpected end of JSON input'')"
  let ?e1 = "[Aborted 0, Response 1 True (js ''OK'')] :: int event list"
  let ?e2 = "[Aborted 0, Response 1 True (js ''OK''), Body 1 ?data] :: int event list"
  let ?e3 = "[Response 1 True (js ''OK''), Body 1 JNull] :: int event list"
  let ?e4 = "[Response 1 False (js ''Not Found'')] :: int event list"
  let ?e5 = "[TransportFailure 1 ?t] :: int event list"
  let ?e6 = "[Response 1 True (js ''OK''), BodyFailure 1 ?b] :: int event list"
  have n: "isNewerVersion (js ''v2.1.0'') (js ''2.0.0'')"
    by (simp add: version_eval)
  have names: "err_name ?t \<noteq> js ''AbortError''" "err_name ?b \<noteq> js ''AbortError''"
    by (simp_all add: js_def)
  have m: "run ?m [] = Some ?m" "updates ?m = []" "state ?m = initial_state (Some (js ''1.0.0''))"
    "length (requests ?m) = 1"
    by (simp_all add: mount_def)
  have c: "\<not> list_ex by_caller ?e1" "\<not> list_ex by_caller ?e2" "\<not> list_ex by_caller ?e3"
    "\<not> list_ex by_caller ?e4" "\<not> list_ex by_caller ?e5" "\<not> list_ex by_caller ?e6"
    by simp_all
  have a: "after_body ?cv ?data = Inr ?s" "after_body ?cv (JNull :: int json) = Inl null_property_error"
    by (simp_all add: after_body_def n)
  obtain g1 where g1: "run ?m (Activate ?cv # ?e1) = Some g1"
    "stage (last (requests g1)) \<noteq> Settled"
    by (simp add: hook_eval)
  obtain g2 where g2: "run ?m (Activate ?cv # ?e2) = Some g2"
    "stage (last (requests g2)) = Settled"
    by (simp add: hook_eval n)
  obtain g3 where g3: "run ?m (Activate ?cv # ?e3) = Some g3"
    by (simp add: hook_eval null_property_error_def js_def)
  obtain g4 where g4: "run ?m (Activate ?cv # ?e4) = Some g4"
    by (simp add: hook_eval error_names)
  obtain g5 where g5: "run ?m (Activate ?cv # ?e5) = Some g5"
    using names by (simp add: hook_eval)
  obtain g6 where g6: "run ?m (Activate ?cv # ?e6) = Some g6"
    using names by (simp add: hook_eval)
  note w = latest_activation_wins [rule_format, of "Some (js ''1.0.0'')" "[]" ?m ?cv]
  from w [of ?e1 g1] m g1 c(1) have s1: "state g1 = state ?m"
    by blast
  from w [of ?e2 g2] m g2 c(2) a(1) have s2: "state g2 = ?s" "updates g2 = state g2 # updates ?m"
    by simp_all
  from w [of ?e3 g3] m g3 c(3) a(2)
  have s3: "state g3 = (state ?m)\<lparr>loading := False, error := Some (err_message null_property_error)\<rparr>"
    by simp
  from w [of ?e4 g4] m g4 c(4)
  have s4: "state g4 = (state ?m)\<lparr>loading := False,
      error := Some (js ''Version check failed: '' @ js ''Not Found'')\<rparr>"
    by simp
  from w [of ?e5 g5] m g5 c(5)
  have s5: "state g5 = (state ?m)\<lparr>loading := False, error := Some (err_message ?t)\<rparr>"
    by simp
  from w [of ?e6 g6] m g6 c(6)
  have s6: "state g6 = (state ?m)\<lparr>loading := False, error := Some (err_message ?b)\<rparr>"
    by simp
  from g1 g2 g3 g4 g5 g6 s1 s2 s3 s4 s5 s6 m show ?thesis
    by simp
qed

text \<open>
  The state set on a failure keeps the \<open>currentVersion\<close> of the previous state: the
  hook mounted with \<^verbatim>\<open>1.0.0\<close> and activated again with \<^verbatim>\<open>2.0.0\<close> ends, when the second
  request fails, in a state that still says \<^verbatim>\<open>1.0.0\<close>.
\<close>

theorem latest_activation_wins_counterexample:
  "map_option state
     (run (mount (Some (js ''1.0.0'')) :: int hook)
        [Activate (Some (js ''2.0.0'')), Aborted 0,
         Response 1 False (js ''Internal Server Error'')])
     = Some \<lparr>latestVersion = JNull, currentVersion = Some (js ''1.0.0''),
          updateAvailable = False, loading = False,
          error = Some (js ''Version check failed: '' @ js ''Internal Server Error'')\<rparr>
   \<and> js ''1.0.0'' \<noteq> js ''2.0.0''"
  by (simp add: hook_eval error_names) (simp add: js_def)

text \<open>
  Claim C5. When the caller deactivates the hook, the request in flight is aborted
  and no state is set any more: whatever arrives afterwards, short of a new
  activation, the state stays the one held before the abort and \<^verbatim>\<open>setState\<close> is not
  called, so \<open>loading\<close> is not cleared and no error appears. The \<^verbatim>\<open>catch\<close> block
  drops an error named \<^verbatim>\<open>AbortError\<close>.
\<close>

theorem abort_is_silent:
  "(\<forall>cv evs h evs' h'.
      run (mount cv) evs = Some h \<and> run h (Deactivate # evs') = Some h'
        \<and> \<not> list_ex activation evs'
      \<longrightarrow> state h' = state h \<and> updates h' = updates h)
   \<and> catch_block abort_error g = g"
proof (rule conjI, intro allI impI)
  fix cv evs h evs' h'
  assume a: "run (mount cv) evs = Some h \<and> run h (Deactivate # evs') = Some h'
        \<and> \<not> list_ex activation evs'"
  then have "superseded_aborted h"
    using mount_superseded run_superseded by blast
  then have "list_all aborted (requests (cleanup h))"
    by (rule cleanup_all_aborted)
  moreover from a have "run (cleanup h) evs' = Some h'"
    by simp
  ultimately have "state h' = state (cleanup h) \<and> updates h' = updates (cleanup h)"
    using a by (intro run_all_aborted [of "cleanup h" evs' h']) auto
  then show "state h' = state h \<and> updates h' = updates h"
    by simp
next
  show "catch_block abort_error g = g"
    by (simp add: error_names(1))
qed

theorem abort_is_silent_witness:
  "map_option state
     (run (mount (Some (js ''1.0.0'')) :: int hook) [Response 0 True (js ''OK'')])
     = Some (initial_state (Some (js ''1.0.0'')))
   \<and> map_option state
     (run (mount (Some (js ''1.0.0'')) :: int hook)
        ([Response 0 True (js ''OK'')] @ [Deactivate, Aborted 0]))
     = Some (initial_state (Some (js ''1.0.0'')))
   \<and> map_option updates
     (run (mount (Some (js ''1.0.0'')) :: int hook)
        ([Response 0 True (js ''OK'')] @ [Deactivate, Aborted 0]))
     = Some []"
proof -
  let ?m = "mount (Some (js ''1.0.0'')) :: int hook"
  obtain h where h: "run ?m [Response 0 True (js ''OK'')] = Some h"
    "state h = initial_state (Some (js ''1.0.0''))" "updates h = []"
    by (simp add: hook_eval)
  obtain h' where h': "run h (Deactivate # [Aborted 0]) = Some h'"
    using h(1) by (auto simp: hook_eval)
  have "\<not> list_ex activation [Aborted 0 :: int event]"
    by simp
  with h h' have "state h' = state h \<and> updates h' = updates h"
    using abort_is_silent [THEN conjunct1, rule_format, of "Some (js ''1.0.0'')" "[Response 0 True (js ''OK'')]" h "[Aborted 0]" h']
    by blast
  moreover have "run ?m ([Response 0 True (js ''OK'')] @ [Deactivate, Aborted 0]) = Some h'"
    using h(1) h' by (simp only: run_append option.case)
  ultimately show ?thesis
    using h by simp
qed

text \<open>
  Claim C6, as amended. Mounting sets the state to no latest version, the current
  version supplied, no update, \<open>loading\<close> true and no error, and issues one request.
  An activation of a mounted hook with another \<^verbatim>\<open>currentVersion\<close> leaves the state as it
  is and sets none; it issues exactly one request, for the version supplied, and
  every earlier request is aborted.
\<close>

theorem activation_issues_one_request:
  "state (mount cv) = initial_state cv
   \<and> requests (mount cv) = [\<lparr>captured = cv, aborted = False, stage = AwaitingResponse\<rparr>]
   \<and> updates (mount cv) = []
   \<and> (\<forall>cv0 evs h cv' h'. run (mount cv0) evs = Some h \<and> step h (Activate cv') = Some h' \<longrightarrow>
        state h' = state h \<and> updates h' = updates h
        \<and> length (requests h') = Suc (length (requests h))
        \<and> last (requests h') = \<lparr>captured = cv', aborted = False, stage = AwaitingResponse\<rparr>
        \<and> list_all aborted (butlast (requests h')))"
proof (intro conjI allI impI)
  fix cv0 evs h cv' h'
  assume a: "run (mount cv0) evs = Some h \<and> step h (Activate cv') = Some h'"
  then have h': "h' = effect cv' (cleanup h)"
    by simp
  from a have "superseded_aborted h"
    using mount_superseded run_superseded by blast
  then have all: "list_all aborted (requests (cleanup h))"
    by (rule cleanup_all_aborted)
  show "state h' = state h" "updates h' = updates h"
    "length (requests h') = Suc (length (requests h))"
    "last (requests h') = \<lparr>captured = cv', aborted = False, stage = AwaitingResponse\<rparr>"
    by (simp_all add: h')
  from all show "list_all aborted (butlast (requests h'))"
    by (simp add: h')
qed (simp_all add: mount_def)

theorem activation_issues_one_request_witness:
  "map_option state
     (run (mount (Some (js ''1.0.0'')) :: int hook) [Activate (Some (js ''2.0.0''))])
     = Some (initial_state (Some (js ''1.0.0'')))
   \<and> map_option requests
     (run (mount (Some (js ''1.0.0'')) :: int hook) [Activate (Some (js ''2.0.0''))])
     = Some [\<lparr>captured = Some (js ''1.0.0''), aborted = True, stage = AwaitingResponse\<rparr>,
             \<lparr>captured = Some (js ''2.0.0''), aborted = False, stage = AwaitingResponse\<rparr>]"
proof -
  let ?m = "mount (Some (js ''1.0.0'')) :: int hook"
  obtain h' where h': "step ?m (Activate (Some (js ''2.0.0''))) = Some h'"
    by simp
  have m: "run ?m [] = Some ?m"
    by simp
  from activation_issues_one_request [THEN conjunct2, THEN conjunct2, THEN conjunct2,
      rule_format, of "Some (js ''1.0.0'')" "[]" ?m "Some (js ''2.0.0'')" h'] m h'
  have "state h' = state ?m"
    by blast
  moreover have "state ?m = initial_state (Some (js ''1.0.0''))"
    using activation_issues_one_request [of "Some (js ''1.0.0'')"] by blast
  moreover have "requests h' =
      [\<lparr>captured = Some (js ''1.0.0''), aborted = True, stage = AwaitingResponse\<rparr>,
       \<lparr>captured = Some (js ''2.0.0''), aborted = False, stage = AwaitingResponse\<rparr>]"
    using h' by (auto simp: hook_eval)
  ultimately show ?thesis
    using h' by simp
qed

text \<open>
  After a finished check, an activation with \<^verbatim>\<open>2.0.0\<close> leaves the state of the check
  for \<^verbatim>\<open>1.0.0\<close>, with \<open>loading\<close> false; it is not the initial state for \<^verbatim>\<open>2.0.0\<close>.
\<close>

theorem activation_counterexample:
  "map_option state
     (run (mount (Some (js ''1.0.0'')) :: int hook)
        [Response 0 True (js ''OK''),
         Body 0 (JObject [(js ''tag_name'', JString (js ''v2.0.0''))]),
         Activate (Some (js ''2.0.0''))])
   = Some \<lparr>latestVersion = JString (js ''v2.0.0''), currentVersion = Some (js ''1.0.0''),
        updateAvailable = True, loading = False, error = None\<rparr>
   \<and> initial_state (Some (js ''2.0.0''))
     = \<lparr>latestVersion = (JNull :: int json), currentVersion = Some (js ''2.0.0''),
        updateAvailable = False, loading = True, error = None\<rparr>"
  by (simp add: hook_eval newer_examples)

text \<open>
  Claim C7, as amended. When the response of a request that is not aborted has a
  status that is not a success, \<open>loading\<close> becomes false and \<open>error\<close> the text
  \<^verbatim>\<open>Version check failed: \<close> followed by the status text; when the transport fails,
  before or after the response, \<open>error\<close> is the message of that failure. The other
  fields keep the value they had: for the check that follows mounting,
  \<open>latestVersion\<close> stays \<^verbatim>\<open>null\<close> and \<open>updateAvailable\<close> false.
\<close>

theorem failure_state:
  "(\<forall>h i statusText e.
      suspended h i AwaitingResponse \<and> err_name e \<noteq> js ''AbortError'' \<longrightarrow>
        map_option state (step h (Response i False statusText))
          = Some ((state h)\<lparr>loading := False,
               error := Some (js ''Version check failed: '' @ statusText)\<rparr>)
        \<and> map_option state (step h (TransportFailure i e))
          = Some ((state h)\<lparr>loading := False, error := Some (err_message e)\<rparr>))
   \<and> (\<forall>h i e.
      suspended h i AwaitingBody \<and> err_name e \<noteq> js ''AbortError'' \<longrightarrow>
        map_option state (step h (BodyFailure i e))
          = Some ((state h)\<lparr>loading := False, error := Some (err_message e)\<rparr>))
   \<and> map_option state (run (mount cv) [Response 0 False statusText])
       = Some \<lparr>latestVersion = JNull, currentVersion = cv, updateAvailable = False,
            loading = False, error = Some (js ''Version check failed: '' @ statusText)\<rparr>"
  by (simp add: after_response_def error_names(4) mount_def suspended_def initial_state_def)

theorem failure_state_witness:
  "suspended (mount (Some (js ''1.0.0'')) :: int hook) 0 AwaitingResponse
   \<and> map_option state
       (step (mount (Some (js ''1.0.0'')) :: int hook)
          (TransportFailure 0 (JsError (js ''TypeError'') (js ''Failed to fetch''))))
     = Some \<lparr>latestVersion = JNull, currentVersion = Some (js ''1.0.0''),
          updateAvailable = False, loading = False, error = Some (js ''Failed to fetch'')\<rparr>
   \<and> suspended (resume 0 AwaitingBody (mount (Some (js ''1.0.0''))) :: int hook) 0 AwaitingBody
   \<and> map_option state
       (step (resume 0 AwaitingBody (mount (Some (js ''1.0.0''))) :: int hook)
          (BodyFailure 0 (JsError (js ''SyntaxError'') (js ''Unexpected end of JSON input''))))
     = Some \<lparr>latestVersion = JNull, currentVersion = Some (js ''1.0.0''),
          updateAvailable = False, loading = False,
          error = Some (js ''Unexpected end of JSON input'')\<rparr>"
proof -
  let ?m = "mount (Some (js ''1.0.0'')) :: int hook"
  let ?e = "JsError (js ''TypeError'') (js ''Failed to fetch'')"
  let ?b = "resume 0 AwaitingBody ?m"
  let ?f = "JsError (js ''SyntaxError'') (js ''Unexpected end of JSON input'')"
  have s: "suspended ?m 0 AwaitingResponse" "suspended ?b 0 AwaitingBody"
    by (simp_all add: hook_eval)
  have n: "err_name ?e \<noteq> js ''AbortError''" "err_name ?f \<noteq> js ''AbortError''"
    by (simp_all add: js_def)
  from failure_state [THEN conjunct1, rule_format, of ?m 0 ?e] s n
  have "map_option state (step ?m (TransportFailure 0 ?e))
      = Some ((state ?m)\<lparr>loading := False, error := Some (err_message ?e)\<rparr>)"
    by blast
  moreover from failure_state [THEN conjunct2, THEN conjunct1, rule_format, of ?b 0 ?f] s n
  have "map_option state (step ?b (BodyFailure 0 ?f))
      = Some ((state ?b)\<lparr>loading := False, error := Some (err_message ?f)\<rparr>)"
    by blast
  ultimately show ?thesis
    using s by (simp add: mount_def initial_state_def)
qed

text \<open>
  After a check that found an update, a failed check of a later activation leaves
  \<open>latestVersion\<close> and \<open>updateAvailable\<close> as they were, not \<^verbatim>\<open>null\<close> and false.
\<close>

theorem failure_state_counterexample:
  "map_option state
     (run (mount (Some (js ''1.0.0'')) :: int hook)
        [Response 0 True (js ''OK''),
         Body 0 (JObject [(js ''tag_name'', JString (js ''v2.0.0''))]),
         Activate (Some (js ''1.5.0'')),
         Response 1 False (js ''Internal Server Error'')])
   = Some \<lparr>latestVersion = JString (js ''v2.0.0''), currentVersion = Some (js ''1.0.0''),
        updateAvailable = True, loading = False,
        error = Some (js ''Version check failed: '' @ js ''Internal Server Error'')\<rparr>"
  by (simp add: hook_eval newer_examples error_names)

text \<open>
  Claim C8, as amended. When the response of a request that is not aborted is a
  success and its body is a JSON value other than \<^verbatim>\<open>null\<close> without a member
  \<^verbatim>\<open>tag_name\<close> (an object without that member, an array, a string, a number or a
  boolean), the request settles and the state has no latest version, no update, no
  error and \<open>loading\<close> false.
\<close>

theorem missing_tag_name:
  "suspended h i AwaitingResponse \<and> data \<noteq> JNull \<and> \<not> has_member (js ''tag_name'') data \<longrightarrow>
     map_option state (run h [Response i True statusText, Body i data])
       = Some \<lparr>latestVersion = JNull, currentVersion = captured (requests h ! i),
            updateAvailable = False, loading = False, error = None\<rparr>
     \<and> map_option (\<lambda>h'. stage (requests h' ! i))
         (run h [Response i True statusText, Body i data]) = Some Settled"
proof
  assume a: "suspended h i AwaitingResponse \<and> data \<noteq> JNull \<and> \<not> has_member (js ''tag_name'') data"
  then have "get_tag_name data = Inr None"
    by (cases data) (simp_all add: map_of_eq_None_iff)
  then have b: "after_body cv data =
      Inr \<lparr>latestVersion = JNull, currentVersion = cv, updateAvailable = False,
           loading = False, error = None\<rparr>" for cv
    by (simp add: after_body_def)
  from a have s: "suspended (resume i AwaitingBody h) i AwaitingBody"
    by (simp add: suspended_def)
  from a s show "map_option state (run h [Response i True statusText, Body i data])
       = Some \<lparr>latestVersion = JNull, currentVersion = captured (requests h ! i),
            updateAvailable = False, loading = False, error = None\<rparr>
     \<and> map_option (\<lambda>h'. stage (requests h' ! i))
         (run h [Response i True statusText, Body i data]) = Some Settled"
    by (simp add: after_response_def b) (simp add: suspended_def)
qed

theorem missing_tag_name_witness:
  "suspended (mount (Some (js ''1.0.0'')) :: int hook) 0 AwaitingResponse
   \<and> \<not> has_member (js ''tag_name'') (JObject [(js ''name'', JString (js ''Release 2''))] :: int json)
   \<and> map_option state
       (run (mount (Some (js ''1.0.0'')) :: int hook)
          [Response 0 True (js ''OK''), Body 0 (JObject [(js ''name'', JString (js ''Release 2''))])])
     = Some \<lparr>latestVersion = JNull, currentVersion = Some (js ''1.0.0''),
          updateAvailable = False, loading = False, error = None\<rparr>
   \<and> \<not> has_member (js ''tag_name'') (JArray [] :: int json)
   \<and> map_option state
       (run (mount (Some (js ''1.0.0'')) :: int hook)
          [Response 0 True (js ''OK''), Body 0 (JArray [])])
     = Some \<lparr>latestVersion = JNull, currentVersion = Some (js ''1.0.0''),
          updateAvailable = False, loading = False, error = None\<rparr>"
proof -
  let ?m = "mount (Some (js ''1.0.0'')) :: int hook"
  let ?d = "JObject [(js ''name'', JString (js ''Release 2''))] :: int json"
  let ?a = "JArray [] :: int json"
  have s: "suspended ?m 0 AwaitingResponse" "captured (requests ?m ! 0) = Some (js ''1.0.0'')"
    by (simp_all add: hook_eval)
  have n: "\<not> has_member (js ''tag_name'') ?d" "\<not> has_member (js ''tag_name'') ?a"
    "?d \<noteq> JNull" "?a \<noteq> JNull"
    by (simp_all add: js_def)
  from missing_tag_name [of ?m 0 ?d "js ''OK''"] s n
  have "map_option state (run ?m [Response 0 True (js ''OK''), Body 0 ?d])
     = Some \<lparr>latestVersion = JNull, currentVersion = Some (js ''1.0.0''),
          updateAvailable = False, loading = False, error = None\<rparr>"
    by simp
  moreover from missing_tag_name [of ?m 0 ?a "js ''OK''"] s n
  have "map_option state (run ?m [Response 0 True (js ''OK''), Body 0 ?a])
     = Some \<lparr>latestVersion = JNull, currentVersion = Some (js ''1.0.0''),
          updateAvailable = False, loading = False, error = None\<rparr>"
    by simp
  ultimately show ?thesis
    using s n by simp
qed

text \<open>
  The JSON value \<^verbatim>\<open>null\<close> has no member \<^verbatim>\<open>tag_name\<close> either, but reading a property
  of it throws: the check ends with an error, not as a success.
\<close>

theorem missing_tag_name_counterexample:
  "\<not> has_member (js ''tag_name'') (JNull :: int json)
   \<and> map_option state
       (run (mount (Some (js ''1.0.0'')) :: int hook)
          [Response 0 True (js ''OK''), Body 0 JNull])
     = Some \<lparr>latestVersion = JNull, currentVersion = Some (js ''1.0.0''),
          updateAvailable = False, loading = False,
          error = Some (err_message null_property_error)\<rparr>"
  by (simp add: hook_eval error_names)

end
